theory Spec2Isabelle
  imports Main "HOL-Library.Sublist" "HOL-Library.AList"
begin

section \<open>Data model\<close>

text \<open>
  JSON-like Python values, as produced by parsing a request body or an upstream
  response: \<open>None\<close>, \<open>bool\<close>, \<open>int\<close>, \<open>float\<close>, \<open>str\<close>, \<open>list\<close> and \<open>dict\<close>. A \<open>dict\<close>
  is an association list in insertion order. A \<open>char\<close> stands for one character of a
  Python \<open>str\<close>, so \<open>length\<close> is Python's \<open>len\<close>.

  A \<open>float\<close> is infinite, not a number, or finite. A finite float is given by the decimal
  numeral that \<open>float.__repr__\<close> writes for it: whether it is negative, its integer part,
  the digits of its fraction and its decimal exponent, if the numeral has one. Which numeral
  a binary float gets is outside this embedding. Python's \<open>json.loads\<close> reads a numeral
  beyond the range of a double, such as \<open>1e400\<close>, as an infinite float, and accepts the
  words \<open>NaN\<close>, \<open>Infinity\<close> and \<open>-Infinity\<close>.
\<close>

datatype pyfloat =
    Finite bool nat "nat list" "int option"
  | PosInf
  | NegInf
  | NaN

datatype json =
    JNull
  | JBool bool
  | JInt int
  | JFloat pyfloat
  | JStr string
  | JArr "json list"
  | JObj "(string \<times> json) list"

type_synonym dict = "(string \<times> json) list"

text \<open>Python's truth value of such a value (\<open>if x:\<close>).\<close>

fun truthy :: "json \<Rightarrow> bool" where
  "truthy JNull = False"
| "truthy (JBool b) = b"
| "truthy (JInt i) = (i \<noteq> 0)"
| "truthy (JFloat (Finite negative whole fraction exponent)) =
     (whole \<noteq> 0 \<or> list_ex (\<lambda>d. d mod 10 \<noteq> 0) fraction)"
| "truthy (JFloat f) = True"
| "truthy (JStr s) = (s \<noteq> [])"
| "truthy (JArr xs) = (xs \<noteq> [])"
| "truthy (JObj kvs) = (kvs \<noteq> [])"

text \<open>\<open>d.get(k, default)\<close>.\<close>

definition dict_get :: "dict \<Rightarrow> string \<Rightarrow> json \<Rightarrow> json" where
  "dict_get d k dflt = (case map_of d k of None \<Rightarrow> dflt | Some v \<Rightarrow> v)"

text \<open>
  Modelled from the spec: the message model (\<open>src/models/claude.py\<close> is not part of the
  sources at hand). Section 3 of the specification gives a turn a role (user or assistant)
  and a content that is plain text or a sequence of content blocks; a content block is a
  tagged union over text, \<open>tool_use(id, name, input)\<close>, \<open>tool_result(tool_use_id, content)\<close>
  and pass-through kinds. The endpoints test a message content for \<open>None\<close> and a block's
  \<open>text\<close> for \<open>None\<close>, so both are admitted here.
\<close>

datatype role = User | Assistant

datatype tool_content =
    CStr string
  | CList "json list"
  | CDict dict
  | CNone

datatype content_block =
    TextBlock "string option"
  | ToolUse string string dict
  | ToolResult string tool_content
  | OtherBlock json

datatype msg_content =
    NoContent
  | StrContent string
  | BlockContent "content_block list"

record message =
  role :: role
  content :: msg_content

datatype system_block = SystemText string | SystemOther json

datatype system_prompt = SystemStr string | SystemBlocks "system_block list"

record claude_request =
  model :: string
  messages :: "message list"
  system :: "system_prompt option"

section \<open>Token count endpoint\<close>

text \<open>The loop \<open>for block in request.system\<close> of \<open>count_tokens\<close>, on the running total.\<close>

fun count_system_blocks :: "int \<Rightarrow> system_block list \<Rightarrow> int" where
  "count_system_blocks total_chars [] = total_chars"
| "count_system_blocks total_chars (SystemText t # bs) =
     count_system_blocks (total_chars + int (length t)) bs"
| "count_system_blocks total_chars (SystemOther v # bs) = count_system_blocks total_chars bs"

definition count_system :: "int \<Rightarrow> system_prompt option \<Rightarrow> int" where
  "count_system total_chars sys =
     (case sys of
        None \<Rightarrow> total_chars
      | Some (SystemStr s) \<Rightarrow> (if s \<noteq> [] then total_chars + int (length s) else total_chars)
      | Some (SystemBlocks bs) \<Rightarrow>
          (if bs \<noteq> [] then count_system_blocks total_chars bs else total_chars))"

text \<open>The loop \<open>for block in msg.content\<close>.\<close>

fun count_content_blocks :: "int \<Rightarrow> content_block list \<Rightarrow> int" where
  "count_content_blocks total_chars [] = total_chars"
| "count_content_blocks total_chars (TextBlock (Some t) # bs) =
     count_content_blocks (total_chars + int (length t)) bs"
| "count_content_blocks total_chars (b # bs) = count_content_blocks total_chars bs"

text \<open>The loop \<open>for msg in request.messages\<close>.\<close>

fun count_messages :: "int \<Rightarrow> message list \<Rightarrow> int" where
  "count_messages total_chars [] = total_chars"
| "count_messages total_chars (msg # msgs) =
     (case content msg of
        NoContent \<Rightarrow> count_messages total_chars msgs
      | StrContent s \<Rightarrow> count_messages (total_chars + int (length s)) msgs
      | BlockContent bs \<Rightarrow> count_messages (count_content_blocks total_chars bs) msgs)"

text \<open>
  \<open>count_tokens\<close> returns \<open>{"input_tokens": estimated_tokens}\<close>; the model returns the
  number. No operation of the body raises on this data model, so the handler that turns an
  exception into HTTP 500 has no branch here.
\<close>

definition count_tokens :: "claude_request \<Rightarrow> int" where
  "count_tokens request =
     (let total_chars = count_system 0 (system request);
          total_chars = count_messages total_chars (messages request);
          estimated_tokens = max 1 (total_chars div 4)
      in estimated_tokens)"

text \<open>
  The character count in the words of the specification: the lengths of a string system
  prompt, of the text of system blocks that have one, of string message contents and of
  the text of message blocks whose text is not \<open>None\<close>.
\<close>

fun system_block_chars :: "system_block \<Rightarrow> int" where
  "system_block_chars (SystemText t) = int (length t)"
| "system_block_chars (SystemOther v) = 0"

fun system_chars :: "system_prompt option \<Rightarrow> int" where
  "system_chars None = 0"
| "system_chars (Some (SystemStr s)) = int (length s)"
| "system_chars (Some (SystemBlocks bs)) = sum_list (map system_block_chars bs)"

fun block_chars :: "content_block \<Rightarrow> int" where
  "block_chars (TextBlock (Some t)) = int (length t)"
| "block_chars b = 0"

fun content_chars :: "msg_content \<Rightarrow> int" where
  "content_chars NoContent = 0"
| "content_chars (StrContent s) = int (length s)"
| "content_chars (BlockContent bs) = sum_list (map block_chars bs)"

definition request_chars :: "claude_request \<Rightarrow> int" where
  "request_chars request =
     system_chars (system request) + sum_list (map (content_chars \<circ> content) (messages request))"

section \<open>Client key validation\<close>

text \<open>Python's \<open>s.replace(old, new)\<close>: the occurrences of \<open>old\<close>, left to right, not overlapping.\<close>

function replace :: "string \<Rightarrow> string \<Rightarrow> string \<Rightarrow> string" where
  "replace old new [] = (if old = [] then new else [])"
| "replace old new (c # cs) =
     (if old = [] then new @ c # replace old new cs
      else if prefix old (c # cs) then new @ replace old new (drop (length old) (c # cs))
      else c # replace old new cs)"
  by pat_completeness auto
termination
  by (relation "measure (\<lambda>(old, new, s). length s)") auto

text \<open>
  The configuration object. \<open>validate_client_api_key\<close> is a method of \<open>config\<close>, whose
  source is not at hand: it is a parameter here.
\<close>

record config =
  anthropic_api_key :: "string option"
  validate_client_api_key :: "string \<Rightarrow> bool"

datatype http_exception = HTTPException int string

text \<open>Truth value of an optional string: neither \<open>None\<close> nor empty.\<close>

fun truthy_str :: "string option \<Rightarrow> bool" where
  "truthy_str None = False"
| "truthy_str (Some s) = (s \<noteq> [])"

text \<open>Lines 31 to 37 of \<open>validate_api_key\<close>: the key the client sent.\<close>

definition client_api_key :: "string option \<Rightarrow> string option \<Rightarrow> string option" where
  "client_api_key x_api_key authorization =
     (if truthy_str x_api_key then x_api_key
      else case authorization of
             None \<Rightarrow> None
           | Some a \<Rightarrow>
               (if a \<noteq> [] \<and> prefix ''Bearer '' a then Some (replace ''Bearer '' [] a)
                else None))"

definition validate_api_key ::
  "config \<Rightarrow> string option \<Rightarrow> string option \<Rightarrow> http_exception + unit" where
  "validate_api_key cfg x_api_key authorization =
     (let key = client_api_key x_api_key authorization
      in if \<not> truthy_str (anthropic_api_key cfg) then Inr ()
         else case key of
                None \<Rightarrow>
                  Inl (HTTPException 401
                         ''Invalid API key. Please provide a valid Anthropic API key.'')
              | Some k \<Rightarrow>
                  (if k = [] \<or> \<not> validate_client_api_key cfg k
                   then Inl (HTTPException 401
                               ''Invalid API key. Please provide a valid Anthropic API key.'')
                   else Inr ()))"

section \<open>Search adapter: parameter mapping\<close>

text \<open>\<open>ExaSearchAdapter._map_websearch_to_exa\<close>. \<open>AList.update\<close> is \<open>d[k] = v\<close>.\<close>

definition map_websearch_to_exa :: "dict \<Rightarrow> dict" where
  "map_websearch_to_exa websearch_input =
     (let exa_params =
            [(''query'', dict_get websearch_input ''query'' (JStr [])),
             (''type'', JStr ''auto''),
             (''numResults'', JInt 10),
             (''contents'',
                JObj [(''text'', JObj [(''maxCharacters'', JInt 2000)]),
                      (''highlights'', JObj [(''numSentences'', JInt 2)]),
                      (''summary'',
                         JObj [(''query'', dict_get websearch_input ''query'' (JStr []))])])];
          allowed_domains = dict_get websearch_input ''allowed_domains'' (JArr []);
          exa_params =
            (if truthy allowed_domains
             then AList.update ''includeDomains'' allowed_domains exa_params else exa_params);
          blocked_domains = dict_get websearch_input ''blocked_domains'' (JArr []);
          exa_params =
            (if truthy blocked_domains
             then AList.update ''excludeDomains'' blocked_domains exa_params else exa_params)
      in AList.update ''startCrawlDate'' (JStr ''2024-01-01'') exa_params)"

section \<open>Substring test\<close>

text \<open>Python's \<open>sub in s\<close> on strings.\<close>

primrec contains :: "string \<Rightarrow> string \<Rightarrow> bool" where
  "contains sub [] = (sub = [])"
| "contains sub (c # cs) = (prefix sub (c # cs) \<or> contains sub cs)"

section \<open>JSON text\<close>

text \<open>Python's \<open>str(n)\<close> of an integer, as used by f-strings and by \<open>json.dumps\<close>.\<close>

definition digit_char :: "nat \<Rightarrow> char" where
  "digit_char n = char_of (48 + n)"

function str_nat :: "nat \<Rightarrow> string" where
  "str_nat n = (if n < 10 then [digit_char n] else str_nat (n div 10) @ [digit_char (n mod 10)])"
  by pat_completeness auto
termination
  by (relation "measure id") auto

declare str_nat.simps [simp del]

definition str_int :: "int \<Rightarrow> string" where
  "str_int i = (if i < 0 then CHR ''-'' # str_nat (nat (- i)) else str_nat (nat i))"

text \<open>
  \<open>json.dumps\<close> with Python's default separators. A character is escaped as the encoder's
  table says: the quote, the backslash, the five short escapes, and \<open>\u00XX\<close> for the other
  control characters; with \<open>ensure_ascii\<close> also for every character outside the printable
  ASCII range.
\<close>

definition hex_char :: "nat \<Rightarrow> char" where
  "hex_char n = (if n < 10 then char_of (48 + n) else char_of (87 + n))"

definition hex4 :: "nat \<Rightarrow> string" where
  "hex4 n = [hex_char (n div 4096 mod 16), hex_char (n div 256 mod 16),
             hex_char (n div 16 mod 16), hex_char (n mod 16)]"

definition escape_char :: "bool \<Rightarrow> char \<Rightarrow> string" where
  "escape_char ensure_ascii c =
     (if c = CHR 0x22 then [CHR 0x5C, CHR 0x22]
      else if c = CHR 0x5C then [CHR 0x5C, CHR 0x5C]
      else if c = CHR 0x08 then [CHR 0x5C, CHR ''b'']
      else if c = CHR 0x0C then [CHR 0x5C, CHR ''f'']
      else if c = CHR 0x0A then [CHR 0x5C, CHR ''n'']
      else if c = CHR 0x0D then [CHR 0x5C, CHR ''r'']
      else if c = CHR 0x09 then [CHR 0x5C, CHR ''t'']
      else if (of_char c :: nat) < 32 \<or> (ensure_ascii \<and> (of_char c :: nat) > 126)
        then [CHR 0x5C, CHR ''u''] @ hex4 (of_char c)
      else [c])"

definition encode_str :: "bool \<Rightarrow> string \<Rightarrow> string" where
  "encode_str ensure_ascii s = CHR 0x22 # concat (map (escape_char ensure_ascii) s) @ [CHR 0x22]"

fun join :: "string \<Rightarrow> string list \<Rightarrow> string" where
  "join sep [] = []"
| "join sep [x] = x"
| "join sep (x # y # ys) = x @ sep @ join sep (y # ys)"

text \<open>
  \<open>float.__repr__\<close> as \<open>json.dumps\<close> uses it: the numeral of a finite float (an exponent
  is written with a sign and at least two digits), and, as \<open>allow_nan\<close> is left at its
  default, the words \<open>Infinity\<close>, \<open>-Infinity\<close> and \<open>NaN\<close> for the others.
\<close>

definition pad2 :: "string \<Rightarrow> string" where
  "pad2 s = (if length s < 2 then CHR ''0'' # s else s)"

fun float_repr :: "pyfloat \<Rightarrow> string" where
  "float_repr (Finite negative whole fraction exponent) =
     (if negative then ''-'' else [])
     @ str_nat whole
     @ (if fraction = [] then [] else CHR ''.'' # map (\<lambda>d. digit_char (d mod 10)) fraction)
     @ (case exponent of
          None \<Rightarrow> []
        | Some e \<Rightarrow> CHR ''e'' # (if e < 0 then CHR ''-'' else CHR ''+'') # pad2 (str_nat (nat \<bar>e\<bar>)))"
| "float_repr PosInf = ''Infinity''"
| "float_repr NegInf = ''-Infinity''"
| "float_repr NaN = ''NaN''"

fun json_dumps :: "bool \<Rightarrow> json \<Rightarrow> string" where
  "json_dumps ensure_ascii JNull = ''null''"
| "json_dumps ensure_ascii (JBool b) = (if b then ''true'' else ''false'')"
| "json_dumps ensure_ascii (JInt i) = str_int i"
| "json_dumps ensure_ascii (JFloat f) = float_repr f"
| "json_dumps ensure_ascii (JStr s) = encode_str ensure_ascii s"
| "json_dumps ensure_ascii (JArr xs) =
     ''['' @ join '', '' (map (json_dumps ensure_ascii) xs) @ '']''"
| "json_dumps ensure_ascii (JObj kvs) =
     ''{'' @ join '', ''
              (map (\<lambda>(k, v). encode_str ensure_ascii k @ '': '' @ json_dumps ensure_ascii v) kvs)
         @ ''}''"

text \<open>
  The JSON grammar of RFC 8259. Each predicate relates a text to what is left of it after
  one phrase of the grammar has been read from its front.
\<close>

definition is_ws :: "char \<Rightarrow> bool" where
  "is_ws c = (c = CHR 0x20 \<or> c = CHR 0x09 \<or> c = CHR 0x0A \<or> c = CHR 0x0D)"

definition is_digit :: "char \<Rightarrow> bool" where
  "is_digit c = (48 \<le> (of_char c :: nat) \<and> (of_char c :: nat) \<le> 57)"

definition is_hex :: "char \<Rightarrow> bool" where
  "is_hex c = (is_digit c \<or> (97 \<le> (of_char c :: nat) \<and> (of_char c :: nat) \<le> 102)
                \<or> (65 \<le> (of_char c :: nat) \<and> (of_char c :: nat) \<le> 70))"

definition is_unescaped :: "char \<Rightarrow> bool" where
  "is_unescaped c = (32 \<le> (of_char c :: nat) \<and> c \<noteq> CHR 0x22 \<and> c \<noteq> CHR 0x5C)"

definition is_escape :: "char \<Rightarrow> bool" where
  "is_escape c = (c = CHR 0x22 \<or> c = CHR 0x5C \<or> c = CHR ''/'' \<or> c = CHR ''b'' \<or> c = CHR ''f''
                  \<or> c = CHR ''n'' \<or> c = CHR ''r'' \<or> c = CHR ''t'')"

inductive json_ws :: "string \<Rightarrow> string \<Rightarrow> bool" where
  ws_none: "json_ws r r"
| ws_more: "is_ws c \<Longrightarrow> json_ws s r \<Longrightarrow> json_ws (c # s) r"

inductive json_digits :: "string \<Rightarrow> string \<Rightarrow> bool" where
  digits_none: "json_digits r r"
| digits_more: "is_digit c \<Longrightarrow> json_digits s r \<Longrightarrow> json_digits (c # s) r"

inductive json_int :: "string \<Rightarrow> string \<Rightarrow> bool" where
  int_zero: "json_int (CHR ''0'' # r) r"
| int_digits: "is_digit c \<Longrightarrow> c \<noteq> CHR ''0'' \<Longrightarrow> json_digits s r \<Longrightarrow> json_int (c # s) r"

inductive json_frac :: "string \<Rightarrow> string \<Rightarrow> bool" where
  frac_none: "json_frac r r"
| frac_some: "is_digit c \<Longrightarrow> json_digits s r \<Longrightarrow> json_frac (CHR ''.'' # c # s) r"

inductive json_exp :: "string \<Rightarrow> string \<Rightarrow> bool" where
  exp_none: "json_exp r r"
| exp_plain: "e = CHR ''e'' \<or> e = CHR ''E'' \<Longrightarrow> is_digit c \<Longrightarrow> json_digits s r
              \<Longrightarrow> json_exp (e # c # s) r"
| exp_sign: "e = CHR ''e'' \<or> e = CHR ''E'' \<Longrightarrow> g = CHR ''+'' \<or> g = CHR ''-'' \<Longrightarrow> is_digit c
             \<Longrightarrow> json_digits s r \<Longrightarrow> json_exp (e # g # c # s) r"

inductive json_number :: "string \<Rightarrow> string \<Rightarrow> bool" where
  number_pos: "json_int s s1 \<Longrightarrow> json_frac s1 s2 \<Longrightarrow> json_exp s2 r \<Longrightarrow> json_number s r"
| number_neg: "json_int s s1 \<Longrightarrow> json_frac s1 s2 \<Longrightarrow> json_exp s2 r
               \<Longrightarrow> json_number (CHR ''-'' # s) r"

text \<open>The characters of a string up to and with the closing quote.\<close>

inductive json_chars :: "string \<Rightarrow> string \<Rightarrow> bool" where
  chars_end: "json_chars (CHR 0x22 # r) r"
| chars_plain: "is_unescaped c \<Longrightarrow> json_chars s r \<Longrightarrow> json_chars (c # s) r"
| chars_escape: "is_escape c \<Longrightarrow> json_chars s r \<Longrightarrow> json_chars (CHR 0x5C # c # s) r"
| chars_unicode: "is_hex a \<Longrightarrow> is_hex b \<Longrightarrow> is_hex c \<Longrightarrow> is_hex d \<Longrightarrow> json_chars s r
                  \<Longrightarrow> json_chars (CHR 0x5C # CHR ''u'' # a # b # c # d # s) r"

inductive json_string :: "string \<Rightarrow> string \<Rightarrow> bool" where
  string_quoted: "json_chars s r \<Longrightarrow> json_string (CHR 0x22 # s) r"

inductive json_value :: "string \<Rightarrow> string \<Rightarrow> bool"
  and json_elements :: "string \<Rightarrow> string \<Rightarrow> bool"
  and json_members :: "string \<Rightarrow> string \<Rightarrow> bool" where
  value_null: "json_value (CHR ''n'' # CHR ''u'' # CHR ''l'' # CHR ''l'' # r) r"
| value_true: "json_value (CHR ''t'' # CHR ''r'' # CHR ''u'' # CHR ''e'' # r) r"
| value_false: "json_value (CHR ''f'' # CHR ''a'' # CHR ''l'' # CHR ''s'' # CHR ''e'' # r) r"
| value_number: "json_number s r \<Longrightarrow> json_value s r"
| value_string: "json_string s r \<Longrightarrow> json_value s r"
| value_empty_array: "json_ws s (CHR '']'' # r) \<Longrightarrow> json_value (CHR ''['' # s) r"
| value_array: "json_elements s r \<Longrightarrow> json_value (CHR ''['' # s) r"
| value_empty_object: "json_ws s (CHR ''}'' # r) \<Longrightarrow> json_value (CHR ''{'' # s) r"
| value_object: "json_members s r \<Longrightarrow> json_value (CHR ''{'' # s) r"
| elements_last: "json_ws s s1 \<Longrightarrow> json_value s1 s2 \<Longrightarrow> json_ws s2 (CHR '']'' # r)
                  \<Longrightarrow> json_elements s r"
| elements_more: "json_ws s s1 \<Longrightarrow> json_value s1 s2 \<Longrightarrow> json_ws s2 (CHR '','' # s3)
                  \<Longrightarrow> json_elements s3 r \<Longrightarrow> json_elements s r"
| members_last: "json_ws s s1 \<Longrightarrow> json_string s1 s2 \<Longrightarrow> json_ws s2 (CHR '':'' # s3)
                 \<Longrightarrow> json_ws s3 s4 \<Longrightarrow> json_value s4 s5 \<Longrightarrow> json_ws s5 (CHR ''}'' # r)
                 \<Longrightarrow> json_members s r"
| members_more: "json_ws s s1 \<Longrightarrow> json_string s1 s2 \<Longrightarrow> json_ws s2 (CHR '':'' # s3)
                 \<Longrightarrow> json_ws s3 s4 \<Longrightarrow> json_value s4 s5 \<Longrightarrow> json_ws s5 (CHR '','' # s6)
                 \<Longrightarrow> json_members s6 r \<Longrightarrow> json_members s r"

text \<open>A valid JSON text: one value between optional white space, and nothing else.\<close>

inductive valid_json :: "string \<Rightarrow> bool" where
  json_text: "json_ws s s1 \<Longrightarrow> json_value s1 s2 \<Longrightarrow> json_ws s2 [] \<Longrightarrow> valid_json s"

text \<open>A value in which every float is finite.\<close>

fun is_finite :: "pyfloat \<Rightarrow> bool" where
  "is_finite (Finite negative whole fraction exponent) = True"
| "is_finite f = False"

fun finite_json :: "json \<Rightarrow> bool" where
  "finite_json (JFloat f) = is_finite f"
| "finite_json (JArr xs) = list_all finite_json xs"
| "finite_json (JObj kvs) = list_all (\<lambda>(k, v). finite_json v) kvs"
| "finite_json v = True"

section \<open>Search adapter\<close>

text \<open>
  The search service as the adapter sees it. One \<open>client.post\<close> either raises (a transport
  failure or a timeout; the string is \<open>str(e)\<close>) or answers with a status code and a body;
  \<open>response.json()\<close> on that body either raises or gives the parsed value. The service
  answers a request as a function of the requests posted before and of the request itself.
  Exceptions are those of class \<open>Exception\<close>, which is what \<open>except Exception\<close> catches.
\<close>

datatype http_outcome =
    Response int "string + json"
  | RequestError string

type_synonym exa_service = "json list \<Rightarrow> json \<Rightarrow> http_outcome"

text \<open>
  What an invocation leaves behind: the inputs the adapter was called with, and the request
  bodies posted to the service, both in order.
\<close>

record world =
  search_calls :: "dict list"
  posts :: "json list"

text \<open>\<open>ExaSearchAdapter._create_error_response\<close>.\<close>

definition create_error_response :: "string \<Rightarrow> json" where
  "create_error_response error_message =
     JObj [(''requestId'', JStr ''error''),
           (''resolvedSearchType'', JStr ''error''),
           (''results'', JArr []),
           (''searchType'', JStr ''error''),
           (''context'', JStr (''Error: '' @ error_message)),
           (''costDollars'',
              JObj [(''total'', JInt 0),
                    (''breakDown'', JArr []),
                    (''perRequestPrices'', JObj []),
                    (''perPagePrices'', JObj [])])]"

text \<open>
  The body of the \<open>try\<close> of \<open>ExaSearchAdapter.search\<close>: \<open>Inl\<close> is an exception raised in
  it, \<open>Inr\<close> a value returned from it.
\<close>

definition search_try :: "exa_service \<Rightarrow> dict \<Rightarrow> world \<Rightarrow> (string + json) \<times> world" where
  "search_try exa websearch_input w =
     (let exa_params = JObj (map_websearch_to_exa websearch_input);
          w' = w\<lparr>posts := posts w @ [exa_params]\<rparr>
      in case exa (posts w) exa_params of
           RequestError e \<Rightarrow> (Inl e, w')
         | Response status_code body \<Rightarrow>
             (if status_code \<noteq> 200
              then (Inr (create_error_response (''Exa API error: '' @ str_int status_code)), w')
              else case body of
                     Inl e \<Rightarrow> (Inl e, w')
                   | Inr v \<Rightarrow> (Inr v, w')))"

text \<open>
  \<open>ExaSearchAdapter.search\<close>, with the adapter's \<open>api_key\<close> as first argument: \<open>Inl\<close> is an
  exception that leaves the method, \<open>Inr\<close> the value it returns.
\<close>

definition search :: "string \<Rightarrow> exa_service \<Rightarrow> dict \<Rightarrow> world \<Rightarrow> (string + json) \<times> world" where
  "search api_key exa websearch_input w0 =
     (let w = w0\<lparr>search_calls := search_calls w0 @ [websearch_input]\<rparr>
      in if api_key = [] then (Inr (create_error_response ''EXA_API_KEY not configured''), w)
         else case search_try exa websearch_input w of
                (Inl e, w') \<Rightarrow> (Inr (create_error_response e), w')
              | (Inr r, w') \<Rightarrow> (Inr r, w'))"

definition process_websearch_via_exa ::
  "string \<Rightarrow> exa_service \<Rightarrow> dict \<Rightarrow> world \<Rightarrow> (string + json) \<times> world" where
  "process_websearch_via_exa api_key exa tool_input w = search api_key exa tool_input w"

section \<open>Tool-call interceptor\<close>

text \<open>Line 89 of the interceptor: the content is a failed or placeholder search result.\<close>

definition is_placeholder :: "string \<Rightarrow> bool" where
  "is_placeholder current_content =
     (contains ''API Error'' current_content \<or> contains ''Did 0 searches'' current_content
      \<or> contains ''Web search results'' current_content)"

text \<open>
  Lines 92 to 106: the search and the new content of the \<open>tool_result\<close> block, with the
  handler for an exception of the search.
\<close>

definition execute_websearch :: "string \<Rightarrow> exa_service \<Rightarrow> dict \<Rightarrow> world \<Rightarrow> string \<times> world" where
  "execute_websearch api_key exa tool_input w =
     (case process_websearch_via_exa api_key exa tool_input w of
        (Inr search_results, w') \<Rightarrow> (json_dumps False search_results, w')
      | (Inl e, w') \<Rightarrow>
          (json_dumps True (JObj [(''error'', JStr (''Search failed: '' @ e)),
                                  (''results'', JArr [])]), w'))"

text \<open>
  Lines 81 to 106, for one block of the last message and the \<open>id\<close> and \<open>input\<close> of a
  \<open>WebSearch\<close> block of the assistant message.
\<close>

fun visit_user_block ::
  "string \<Rightarrow> exa_service \<Rightarrow> string \<Rightarrow> dict \<Rightarrow> content_block \<Rightarrow> world \<Rightarrow> content_block \<times> world"
where
  "visit_user_block api_key exa aid tool_input (ToolResult tool_use_id (CStr current_content)) w =
     (if tool_use_id = aid \<and> is_placeholder current_content
      then (let (new_content, w') = execute_websearch api_key exa tool_input w
            in (ToolResult tool_use_id (CStr new_content), w'))
      else (ToolResult tool_use_id (CStr current_content), w))"
| "visit_user_block api_key exa aid tool_input user_block w = (user_block, w)"

text \<open>The loop \<open>for user_block in last.content\<close>.\<close>

fun scan_user_blocks ::
  "string \<Rightarrow> exa_service \<Rightarrow> string \<Rightarrow> dict \<Rightarrow> content_block list \<Rightarrow> world
   \<Rightarrow> content_block list \<times> world"
where
  "scan_user_blocks api_key exa aid tool_input [] w = ([], w)"
| "scan_user_blocks api_key exa aid tool_input (user_block # rest) w =
     (let (user_block', w') = visit_user_block api_key exa aid tool_input user_block w;
          (rest', w'') = scan_user_blocks api_key exa aid tool_input rest w'
      in (user_block' # rest', w''))"

text \<open>The loop \<open>for assistant_block in second_last.content\<close>, on the blocks of the last message.\<close>

fun scan_assistant_blocks ::
  "string \<Rightarrow> exa_service \<Rightarrow> content_block list \<Rightarrow> content_block list \<Rightarrow> world
   \<Rightarrow> content_block list \<times> world"
where
  "scan_assistant_blocks api_key exa [] user_blocks w = (user_blocks, w)"
| "scan_assistant_blocks api_key exa (assistant_block # rest) user_blocks w =
     (case assistant_block of
        ToolUse aid name tool_input \<Rightarrow>
          (if name = ''WebSearch''
           then (let (user_blocks', w') = scan_user_blocks api_key exa aid tool_input user_blocks w
                 in scan_assistant_blocks api_key exa rest user_blocks' w')
           else scan_assistant_blocks api_key exa rest user_blocks w)
      | _ \<Rightarrow> scan_assistant_blocks api_key exa rest user_blocks w)"

text \<open>
  \<open>intercept_websearch_in_request\<close>. The request is changed in place in the source; here the
  changed request is returned, with the world after the searches.
\<close>

definition intercept_websearch_in_request ::
  "string \<Rightarrow> exa_service \<Rightarrow> 'a claude_request_scheme \<Rightarrow> world
   \<Rightarrow> 'a claude_request_scheme \<times> world"
where
  "intercept_websearch_in_request api_key exa request w =
     (let msgs = messages request; n = length msgs
      in if n \<ge> 2 then
           (let second_last = msgs ! (n - 2); last_msg = msgs ! (n - 1)
            in if role second_last = Assistant \<and> role last_msg = User then
                 (case (content second_last, content last_msg) of
                    (BlockContent assistant_blocks, BlockContent user_blocks) \<Rightarrow>
                      (let (user_blocks', w') =
                             scan_assistant_blocks api_key exa assistant_blocks user_blocks w
                       in (request\<lparr>messages :=
                                     msgs[n - 1 := last_msg\<lparr>content := BlockContent user_blocks'\<rparr>]\<rparr>,
                           w'))
                  | _ \<Rightarrow> (request, w))
               else (request, w))
         else (request, w))"

section \<open>Trigger condition\<close>

text \<open>
  The trigger condition of section 4.1 of the specification, in its words: the second-to-last
  turn is an assistant turn with block content, the last turn is a user turn with block
  content, and some \<open>tool_use\<close> block named \<open>WebSearch\<close> of the former has a \<open>tool_result\<close>
  block of the latter with its correlation id, whose content is a string with one of the
  placeholder markers.
\<close>

fun matched_placeholder :: "content_block \<Rightarrow> content_block \<Rightarrow> bool" where
  "matched_placeholder (ToolUse aid name tool_input) (ToolResult tool_use_id (CStr s)) =
     (name = ''WebSearch'' \<and> tool_use_id = aid \<and> is_placeholder s)"
| "matched_placeholder a u = False"

definition trigger :: "message list \<Rightarrow> bool" where
  "trigger msgs =
     (length msgs \<ge> 2
      \<and> role (msgs ! (length msgs - 2)) = Assistant
      \<and> role (msgs ! (length msgs - 1)) = User
      \<and> (case (content (msgs ! (length msgs - 2)), content (msgs ! (length msgs - 1))) of
            (BlockContent assistant_blocks, BlockContent user_blocks) \<Rightarrow>
              (\<exists>a \<in> set assistant_blocks. \<exists>u \<in> set user_blocks. matched_placeholder a u)
          | _ \<Rightarrow> False))"

section \<open>The request of the repository's test script\<close>

text \<open>The request that \<open>test_websearch.py\<close> sends (its fields other than the model, the
  messages and the system prompt left out).\<close>

definition test_request :: claude_request where
  "test_request =
     \<lparr>model = ''claude-3-opus-20240229'',
      messages =
        [\<lparr>role = User,
          content = StrContent ''What are the latest developments in quantum computing in 2025?''\<rparr>,
         \<lparr>role = Assistant,
          content = BlockContent
            [TextBlock (Some ''I'll search for the latest developments in quantum computing in 2025.''),
             ToolUse ''test_tool_123'' ''WebSearch''
               [(''query'', JStr ''quantum computing breakthroughs 2025 latest developments'')]]\<rparr>,
         \<lparr>role = User,
          content = BlockContent
            [ToolResult ''test_tool_123'' (CStr ''Pending search results...'')]\<rparr>],
      system = None\<rparr>"

section \<open>What the interceptor may change\<close>

text \<open>The correlation id of a \<open>tool_result\<close> block.\<close>

fun result_id :: "content_block \<Rightarrow> string option" where
  "result_id (ToolResult tool_use_id c) = Some tool_use_id"
| "result_id b = None"

text \<open>A \<open>tool_result\<close> block whose content is a string that is valid JSON.\<close>

fun valid_result :: "content_block \<Rightarrow> bool" where
  "valid_result (ToolResult tool_use_id (CStr s)) = valid_json s"
| "valid_result b = False"

text \<open>
  A block of the last turn before and after the interception, given the blocks of the
  assistant turn: a placeholder block matched by a \<open>WebSearch\<close> block is afterwards a
  \<open>tool_result\<close> block with the id it had and a valid JSON string as content; every other
  block is as it was.
\<close>

definition block_frame :: "content_block list \<Rightarrow> content_block \<Rightarrow> content_block \<Rightarrow> bool" where
  "block_frame assistant_blocks u u' =
     (if \<exists>a \<in> set assistant_blocks. matched_placeholder a u
      then result_id u' = result_id u \<and> valid_result u'
      else u' = u)"

text \<open>A search service whose decoded bodies hold finite floats only.\<close>

definition finite_service :: "exa_service \<Rightarrow> bool" where
  "finite_service exa =
     (\<forall>history exa_params status_code v.
        exa history exa_params = Response status_code (Inr v) \<longrightarrow> finite_json v)"

text \<open>
  A search service that answers every request with the body \<open>{"score": 1e400}\<close>, which
  \<open>response.json()\<close> decodes to a \<open>dict\<close> with an infinite float.
\<close>

definition overflow_service :: exa_service where
  "overflow_service history exa_params = Response 200 (Inr (JObj [(''score'', JFloat PosInf)]))"

definition score_infinity :: string where
  "score_infinity =
     [CHR ''{'', CHR 0x22, CHR ''s'', CHR ''c'', CHR ''o'', CHR ''r'', CHR ''e'', CHR 0x22,
      CHR '':'', CHR '' '', CHR ''I'', CHR ''n'', CHR ''f'', CHR ''i'', CHR ''n'', CHR ''i'',
      CHR ''t'', CHR ''y'', CHR ''}'']"

text \<open>The test request with a placeholder that carries a marker.\<close>

definition placeholder_request :: claude_request where
  "placeholder_request =
     \<lparr>model = ''claude-3-opus-20240229'',
      messages =
        [\<lparr>role = User,
          content = StrContent ''What are the latest developments in quantum computing in 2025?''\<rparr>,
         \<lparr>role = Assistant,
          content = BlockContent
            [TextBlock (Some ''I'll search for the latest developments.''),
             ToolUse ''test_tool_123'' ''WebSearch''
               [(''query'', JStr ''quantum computing breakthroughs 2025'')]]\<rparr>,
         \<lparr>role = User,
          content = BlockContent
            [ToolResult ''test_tool_123'' (CStr ''Web search results for query: quantum'')]\<rparr>],
      system = None\<rparr>"

section \<open>Counting searches\<close>

text \<open>The id of a \<open>tool_use\<close> block named \<open>WebSearch\<close>.\<close>

fun use_id :: "content_block \<Rightarrow> string option" where
  "use_id (ToolUse aid name tool_input) = (if name = ''WebSearch'' then Some aid else None)"
| "use_id b = None"

text \<open>
  The number of pairs of a \<open>WebSearch\<close> \<open>tool_use\<close> block of the assistant turn and a
  \<open>tool_result\<close> block of the last turn that carries its id.
\<close>

definition id_matches :: "content_block \<Rightarrow> content_block list \<Rightarrow> nat" where
  "id_matches a user_blocks =
     length (filter (\<lambda>u. use_id a \<noteq> None \<and> result_id u = use_id a) user_blocks)"

definition matching_pairs :: "content_block list \<Rightarrow> content_block list \<Rightarrow> nat" where
  "matching_pairs assistant_blocks user_blocks =
     sum_list (map (\<lambda>a. id_matches a user_blocks) assistant_blocks)"

definition websearch_pairs :: "message list \<Rightarrow> nat" where
  "websearch_pairs msgs =
     (if length msgs \<ge> 2 then
        (case (content (msgs ! (length msgs - 2)), content (msgs ! (length msgs - 1))) of
           (BlockContent assistant_blocks, BlockContent user_blocks) \<Rightarrow>
             matching_pairs assistant_blocks user_blocks
         | _ \<Rightarrow> 0)
      else 0)"

text \<open>A search service that answers every request with an empty result list.\<close>

definition no_results_service :: exa_service where
  "no_results_service history exa_params = Response 200 (Inr (JObj [(''results'', JArr [])]))"

definition no_world :: world where
  "no_world = \<lparr>search_calls = [], posts = []\<rparr>"

text \<open>A request whose assistant turn asks for two searches, both answered by placeholders.\<close>

definition two_search_request :: claude_request where
  "two_search_request =
     \<lparr>model = ''claude-3-opus-20240229'',
      messages =
        [\<lparr>role = User, content = StrContent ''Compare the two.''\<rparr>,
         \<lparr>role = Assistant,
          content = BlockContent
            [ToolUse ''toolu_1'' ''WebSearch'' [(''query'', JStr ''first'')],
             ToolUse ''toolu_2'' ''WebSearch'' [(''query'', JStr ''second'')]]\<rparr>,
         \<lparr>role = User,
          content = BlockContent
            [ToolResult ''toolu_1'' (CStr ''API Error: 400''),
             ToolResult ''toolu_2'' (CStr ''API Error: 400'')]\<rparr>],
      system = None\<rparr>"

text \<open>
  Two worlds, before and after: searches and posts are only added, at most \<open>k\<close> searches,
  and at most one post for each added search.
\<close>

definition world_step :: "nat \<Rightarrow> world \<Rightarrow> world \<Rightarrow> bool" where
  "world_step k w w' =
     (length (search_calls w) \<le> length (search_calls w')
      \<and> length (search_calls w') \<le> length (search_calls w) + k
      \<and> length (posts w) \<le> length (posts w')
      \<and> length (posts w') + length (search_calls w)
          \<le> length (posts w) + length (search_calls w'))"

section \<open>Streaming response converter\<close>













text \<open>The characters a JSON value can start with.\<close>

definition value_first :: "char \<Rightarrow> bool" where
  "value_first c = (c = CHR ''n'' \<or> c = CHR ''t'' \<or> c = CHR ''f'' \<or> c = CHR ''-'' \<or> is_digit c
                     \<or> c = CHR 0x22 \<or> c = CHR ''['' \<or> c = CHR ''{'')"

text \<open>
  Modelled from the spec: a configuration with a server secret. The source of
  \<open>config.validate_client_api_key\<close> is not at hand; section 6 of the specification has the
  client supply a shared secret, so the method accepts the key that equals the secret.
\<close>

definition secret_config :: "string \<Rightarrow> config" where
  "secret_config secret =
     \<lparr>anthropic_api_key = Some secret, validate_client_api_key = (\<lambda>k. k = secret)\<rparr>"


section \<open>Token count endpoint: properties\<close>

lemma count_system_blocks_acc:
  "count_system_blocks n bs = n + sum_list (map system_block_chars bs)"
  by (induction n bs rule: count_system_blocks.induct) simp_all

lemma count_system_acc: "count_system n sys = n + system_chars sys"
  by (cases sys rule: system_chars.cases)
     (simp_all add: count_system_def count_system_blocks_acc)

lemma count_content_blocks_acc:
  "count_content_blocks n bs = n + sum_list (map block_chars bs)"
  by (induction n bs rule: count_content_blocks.induct) simp_all

lemma count_messages_acc:
  "count_messages n msgs = n + sum_list (map (content_chars \<circ> content) msgs)"
proof (induction msgs arbitrary: n)
  case Nil
  show ?case by simp
next
  case (Cons msg msgs)
  show ?case
    by (cases "content msg") (simp_all add: Cons.IH count_content_blocks_acc)
qed

text \<open>
  C8. A token-count request whose system prompt is a string of 40 characters and whose only
  message is a user message with a string content of 80 characters is answered with
  \<open>input_tokens = 30\<close>.
\<close>

theorem count_tokens_scenario:
  assumes "system request = Some (SystemStr sys)" and "length sys = 40"
    and "messages request = [msg]" and "role msg = User"
    and "content msg = StrContent text" and "length text = 80"
  shows "count_tokens request = 30"
  using assms by (auto simp add: count_tokens_def count_system_def)

theorem count_tokens_scenario_witness:
  "count_tokens \<lparr>model = ''claude-3-opus-20240229'',
                  messages = [\<lparr>role = User, content = StrContent (replicate 80 CHR ''u'')\<rparr>],
                  system = Some (SystemStr (replicate 40 CHR ''s''))\<rparr> = 30"
  using count_tokens_scenario
    [of "\<lparr>model = ''claude-3-opus-20240229'',
          messages = [\<lparr>role = User, content = StrContent (replicate 80 CHR ''u'')\<rparr>],
          system = Some (SystemStr (replicate 40 CHR ''s''))\<rparr>"
        "replicate 40 CHR ''s''"
        "\<lparr>role = User, content = StrContent (replicate 80 CHR ''u'')\<rparr>"
        "replicate 80 CHR ''u''"]
  by simp

text \<open>
  C9. For every token-count request the answer is \<open>max 1 (C div 4)\<close>, where \<open>C\<close> adds up
  the length of a string system prompt, of the text of the system blocks that have a text, of
  the string message contents and of the text of the message blocks whose text is not
  \<open>None\<close>; other blocks and \<open>None\<close> contents add nothing. The answer is at least 1, and
  it is 1 for a request without system prompt and without messages.
\<close>

theorem count_tokens_formula:
  "count_tokens request = max 1 (request_chars request div 4)
   \<and> 1 \<le> count_tokens request
   \<and> count_tokens \<lparr>model = m, messages = [], system = None\<rparr> = 1
   \<and> block_chars (ToolUse i n inp) = 0 \<and> block_chars (ToolResult i c) = 0
   \<and> block_chars (TextBlock None) = 0 \<and> content_chars NoContent = 0"
  by (simp add: count_tokens_def request_chars_def count_system_acc count_messages_acc)

section \<open>Client key validation: properties\<close>

lemma replace_absent: "old \<noteq> [] \<Longrightarrow> \<not> contains old s \<Longrightarrow> replace old new s = s"
  by (induction s) auto

lemma client_api_key_bearer:
  assumes "\<not> truthy_str x" and "\<not> contains ''Bearer '' k"
  shows "client_api_key x (Some (''Bearer '' @ k)) = Some k"
  using assms replace_absent [of "''Bearer ''" k "[]"]
  by (simp add: client_api_key_def)

text \<open>
  The branches of \<open>validate_api_key\<close>. Without a configured server secret the check passes
  whatever the headers are. With a secret, a request whose client key is missing, empty or
  refused by \<open>validate_client_api_key\<close> is rejected with HTTP 401, and a request whose
  client key is accepted passes. The client key is the \<open>x-api-key\<close> header when that is
  present and not empty; otherwise it is computed from an \<open>Authorization\<close> header that starts
  with \<open>Bearer \<close>, and it is the rest of that header when \<open>Bearer \<close> does not occur in the
  rest again.
\<close>

lemma validate_api_key_cases:
  "(\<not> truthy_str (anthropic_api_key cfg) \<longrightarrow> validate_api_key cfg x a = Inr ())
   \<and> (truthy_str (anthropic_api_key cfg)
        \<and> (client_api_key x a = None \<or> client_api_key x a = Some []
             \<or> (\<exists>k. client_api_key x a = Some k \<and> \<not> validate_client_api_key cfg k))
      \<longrightarrow> validate_api_key cfg x a
            = Inl (HTTPException 401 ''Invalid API key. Please provide a valid Anthropic API key.''))
   \<and> (truthy_str (anthropic_api_key cfg) \<and> client_api_key x a = Some k \<and> k \<noteq> []
        \<and> validate_client_api_key cfg k
      \<longrightarrow> validate_api_key cfg x a = Inr ())
   \<and> (k \<noteq> [] \<longrightarrow> client_api_key (Some k) a = Some k)
   \<and> (\<not> truthy_str x \<and> \<not> contains ''Bearer '' k
      \<longrightarrow> client_api_key x (Some (''Bearer '' @ k)) = Some k)
   \<and> (\<not> truthy_str x \<and> (a = None \<or> (\<exists>s. a = Some s \<and> \<not> prefix ''Bearer '' s))
      \<longrightarrow> client_api_key x a = None)"
  using client_api_key_bearer [of x k]
  by (auto simp add: validate_api_key_def client_api_key_def Let_def split: option.splits)

text \<open>
  C7. With a server secret configured, a request whose credential is invalid is to be
  rejected with HTTP 401 and a request whose credential is valid is to pass, the credential
  of an \<open>Authorization\<close> header being what follows its \<open>Bearer \<close> prefix. The code removes
  every occurrence of \<open>Bearer \<close> from the header, not only the prefix. So with the secret
  \<open>secret\<close> the header \<open>Bearer Bearer secret\<close>, whose credential \<open>Bearer secret\<close> is not the
  secret, passes; and with the secret \<open>my Bearer key\<close> the header \<open>Bearer my Bearer key\<close>,
  whose credential is the secret, is rejected with 401.
\<close>

theorem bearer_replace_failing_inputs:
  "client_api_key None (Some ''Bearer Bearer secret'') = Some ''secret''
   \<and> validate_api_key (secret_config ''secret'') None (Some ''Bearer Bearer secret'') = Inr ()
   \<and> client_api_key None (Some ''Bearer my Bearer key'') = Some ''my key''
   \<and> validate_api_key (secret_config ''my Bearer key'') None (Some ''Bearer my Bearer key'')
     = Inl (HTTPException 401 ''Invalid API key. Please provide a valid Anthropic API key.'')"
  by (simp add: validate_api_key_def client_api_key_def secret_config_def)

section \<open>Search adapter, parameter mapping: properties\<close>

text \<open>
  C5. For an input whose query is \<open>quantum computing breakthroughs 2025\<close> and whose domain
  lists are absent or empty, the mapped request is exactly the query, type \<open>auto\<close>,
  \<open>numResults\<close> 10, the contents limits and \<open>startCrawlDate\<close> 2024-01-01, with no
  \<open>includeDomains\<close> and no \<open>excludeDomains\<close> key. For any input, a non-empty
  \<open>allowed_domains\<close> list is passed under \<open>includeDomains\<close> and a non-empty
  \<open>blocked_domains\<close> list under \<open>excludeDomains\<close>.
\<close>

theorem map_websearch_to_exa_scenario:
  "(map_of inp ''query'' = Some (JStr ''quantum computing breakthroughs 2025'')
    \<and> map_of inp ''allowed_domains'' \<in> {None, Some (JArr [])}
    \<and> map_of inp ''blocked_domains'' \<in> {None, Some (JArr [])}
    \<longrightarrow> map_websearch_to_exa inp =
          [(''query'', JStr ''quantum computing breakthroughs 2025''),
           (''type'', JStr ''auto''),
           (''numResults'', JInt 10),
           (''contents'',
              JObj [(''text'', JObj [(''maxCharacters'', JInt 2000)]),
                    (''highlights'', JObj [(''numSentences'', JInt 2)]),
                    (''summary'',
                       JObj [(''query'', JStr ''quantum computing breakthroughs 2025'')])]),
           (''startCrawlDate'', JStr ''2024-01-01'')]
        \<and> ''includeDomains'' \<notin> fst ` set (map_websearch_to_exa inp)
        \<and> ''excludeDomains'' \<notin> fst ` set (map_websearch_to_exa inp))
   \<and> (map_of inp ''allowed_domains'' = Some (JArr ds) \<and> ds \<noteq> []
      \<longrightarrow> map_of (map_websearch_to_exa inp) ''includeDomains'' = Some (JArr ds))
   \<and> (map_of inp ''blocked_domains'' = Some (JArr ds) \<and> ds \<noteq> []
      \<longrightarrow> map_of (map_websearch_to_exa inp) ''excludeDomains'' = Some (JArr ds))"
  by (auto simp add: map_websearch_to_exa_def dict_get_def Let_def split: option.splits)

theorem map_websearch_to_exa_scenario_witness:
  "map_of (map_websearch_to_exa
             [(''query'', JStr ''quantum computing breakthroughs 2025'')]) ''type''
     = Some (JStr ''auto'')
   \<and> map_of (map_websearch_to_exa
               [(''query'', JStr ''quantum computing breakthroughs 2025''),
                (''allowed_domains'', JArr [])]) ''numResults''
     = Some (JInt 10)
   \<and> ''includeDomains'' \<notin> fst ` set (map_websearch_to_exa
               [(''query'', JStr ''quantum computing breakthroughs 2025'')])
   \<and> map_of (map_websearch_to_exa
               [(''query'', JStr ''q''), (''allowed_domains'', JArr [JStr ''arxiv.org''])])
        ''includeDomains''
     = Some (JArr [JStr ''arxiv.org''])
   \<and> map_of (map_websearch_to_exa
               [(''query'', JStr ''q''), (''blocked_domains'', JArr [JStr ''example.com''])])
        ''excludeDomains''
     = Some (JArr [JStr ''example.com''])"
  using
    map_websearch_to_exa_scenario
      [of "[(''query'', JStr ''quantum computing breakthroughs 2025'')]" "[JStr ''arxiv.org'']"]
    map_websearch_to_exa_scenario
      [of "[(''query'', JStr ''quantum computing breakthroughs 2025''),
            (''allowed_domains'', JArr [])]" "[JStr ''arxiv.org'']"]
    map_websearch_to_exa_scenario
      [of "[(''query'', JStr ''q''), (''allowed_domains'', JArr [JStr ''arxiv.org''])]"
          "[JStr ''arxiv.org'']"]
    map_websearch_to_exa_scenario
      [of "[(''query'', JStr ''q''), (''blocked_domains'', JArr [JStr ''example.com''])]"
          "[JStr ''example.com'']"]
  by simp

section \<open>The serializer writes valid JSON\<close>

lemma of_char_digit_char: "n < 10 \<Longrightarrow> (of_char (digit_char n) :: nat) = 48 + n"
  by (simp add: digit_char_def)

lemma is_digit_digit_char: "n < 10 \<Longrightarrow> is_digit (digit_char n)"
  by (simp add: is_digit_def of_char_digit_char)

lemma digit_char_zero: "n < 10 \<Longrightarrow> (digit_char n = CHR ''0'') = (n = 0)"
proof -
  assume n: "n < 10"
  have "(digit_char n = CHR ''0'') = ((of_char (digit_char n) :: nat) = of_char CHR ''0'')"
    by (simp only: of_char_eq_iff)
  also have "\<dots> = (n = 0)"
    using n by (simp add: of_char_digit_char)
  finally show ?thesis .
qed

lemma is_hex_hex_char: "n < 16 \<Longrightarrow> is_hex (hex_char n)"
  by (simp add: is_hex_def is_digit_def hex_char_def)

lemma json_chars_hex4: "json_chars s r \<Longrightarrow> json_chars (CHR 0x5C # CHR ''u'' # hex4 n @ s) r"
  by (simp add: hex4_def chars_unicode is_hex_hex_char)

lemma json_chars_escape_char:
  assumes "json_chars s r"
  shows "json_chars (escape_char ea c @ s) r"
proof -
  have esc: "\<And>e. is_escape e \<Longrightarrow> json_chars (CHR 0x5C # e # s) r"
    by (rule chars_escape) (simp_all add: assms)
  have uni: "json_chars (CHR 0x5C # CHR ''u'' # hex4 (of_char c) @ s) r"
    using assms by (rule json_chars_hex4)
  have plain: "is_unescaped c \<Longrightarrow> json_chars (c # s) r"
    by (rule chars_plain) (simp_all add: assms)
  show ?thesis
    unfolding escape_char_def
    using esc uni plain by (simp add: is_escape_def is_unescaped_def)
qed

lemma json_chars_escaped:
  "json_chars (concat (map (escape_char ea) s) @ CHR 0x22 # r) r"
  by (induction s) (simp_all add: chars_end json_chars_escape_char)

lemma json_string_encode_str: "json_string (encode_str ea s @ r) r"
  by (simp add: encode_str_def string_quoted json_chars_escaped)

lemma json_digits_trans: "json_digits s t \<Longrightarrow> json_digits t r \<Longrightarrow> json_digits s r"
  by (induction rule: json_digits.induct) (simp_all add: digits_more)

lemma str_nat_digits: "json_digits (str_nat n @ r) r"
proof (induction n arbitrary: r rule: str_nat.induct)
  case (1 n)
  show ?case
  proof (cases "n < 10")
    case True
    then show ?thesis
      by (subst str_nat.simps) (simp add: digits_more digits_none is_digit_digit_char)
  next
    case False
    have d: "json_digits (digit_char (n mod 10) # r) r"
      by (simp add: digits_more digits_none is_digit_digit_char)
    have "json_digits (str_nat (n div 10) @ digit_char (n mod 10) # r) (digit_char (n mod 10) # r)"
      using False by (rule "1.IH")
    then have "json_digits (str_nat (n div 10) @ digit_char (n mod 10) # r) r"
      using d by (rule json_digits_trans)
    then show ?thesis
      using False by (subst str_nat.simps) simp
  qed
qed

lemma str_nat_leading:
  "0 < n \<Longrightarrow> \<exists>c ds. str_nat n = c # ds \<and> is_digit c \<and> c \<noteq> CHR ''0'' \<and> (\<forall>r. json_digits (ds @ r) r)"
proof (induction n rule: str_nat.induct)
  case (1 n)
  show ?case
  proof (cases "n < 10")
    case True
    have "str_nat n = [digit_char n]"
      using True by (subst str_nat.simps) simp
    then show ?thesis
      using True "1.prems" by (simp add: is_digit_digit_char digit_char_zero digits_none)
  next
    case False
    then have "0 < n div 10" by simp
    with False "1.IH" obtain c ds where
      h: "str_nat (n div 10) = c # ds" "is_digit c" "c \<noteq> CHR ''0''" "\<forall>r. json_digits (ds @ r) r"
      by blast
    have s: "str_nat n = c # (ds @ [digit_char (n mod 10)])"
      using False h(1) by (subst str_nat.simps) simp
    have "json_digits ((ds @ [digit_char (n mod 10)]) @ r) r" for r
    proof -
      have "json_digits (ds @ digit_char (n mod 10) # r) (digit_char (n mod 10) # r)"
        using h(4) by blast
      moreover have "json_digits (digit_char (n mod 10) # r) r"
        by (simp add: digits_more digits_none is_digit_digit_char)
      ultimately show ?thesis
        by (simp add: json_digits_trans)
    qed
    with s h(2,3) show ?thesis by blast
  qed
qed

lemma json_int_str_nat: "json_int (str_nat n @ r) r"
proof (cases "n = 0")
  case True
  have "str_nat 0 = [digit_char 0]" by (subst str_nat.simps) simp
  also have "digit_char 0 = CHR ''0''" using digit_char_zero [of 0] by simp
  finally show ?thesis using True by (simp add: int_zero)
next
  case False
  then obtain c ds where
    h: "str_nat n = c # ds" "is_digit c" "c \<noteq> CHR ''0''" "\<forall>r. json_digits (ds @ r) r"
    using str_nat_leading [of n] by auto
  then show ?thesis by (simp add: int_digits)
qed

lemma json_number_str_int: "json_number (str_int i @ r) r"
proof (cases "i < 0")
  case True
  have "json_number (CHR ''-'' # str_nat (nat (- i)) @ r) r"
    by (rule number_neg [OF json_int_str_nat frac_none exp_none])
  then show ?thesis using True by (simp add: str_int_def)
next
  case False
  have "json_number (str_nat (nat i) @ r) r"
    by (rule number_pos [OF json_int_str_nat frac_none exp_none])
  then show ?thesis using False by (simp add: str_int_def)
qed


lemma is_ws_space: "is_ws CHR '' ''"
  by (simp add: is_ws_def)

lemma json_elements_ws: "json_elements s r \<Longrightarrow> is_ws c \<Longrightarrow> json_elements (c # s) r"
  by (erule json_elements.cases) (blast intro: ws_more elements_last elements_more)+

lemma json_members_ws: "json_members s r \<Longrightarrow> is_ws c \<Longrightarrow> json_members (c # s) r"
  by (erule json_members.cases) (blast intro: ws_more members_last members_more)+

lemma json_elements_join:
  assumes "\<And>x r. x \<in> set xs \<Longrightarrow> json_value (f x @ r) r" and "xs \<noteq> []"
  shows "json_elements (join '', '' (map f xs) @ CHR '']'' # r) r"
  using assms
proof (induction xs rule: induct_list012)
  case 1
  then show ?case by simp
next
  case (2 x)
  have "json_value (f x @ CHR '']'' # r) (CHR '']'' # r)"
    using 2 by simp
  then show ?case
    using elements_last [OF ws_none _ ws_none] by simp
next
  case (3 x y zs)
  let ?rest = "join '', '' (map f (y # zs)) @ CHR '']'' # r"
  have v: "json_value (f x @ CHR '','' # CHR '' '' # ?rest) (CHR '','' # CHR '' '' # ?rest)"
    by (rule "3.prems"(1)) simp
  have "json_elements ?rest r"
  proof (rule "3.IH"(2))
    fix x' r'
    assume "x' \<in> set (y # zs)"
    then have "x' \<in> set (x # y # zs)" by simp
    then show "json_value (f x' @ r') r'" by (rule "3.prems"(1))
  qed simp
  then have e: "json_elements (CHR '' '' # ?rest) r"
    using is_ws_space by (rule json_elements_ws)
  show ?case
    using elements_more [OF ws_none v ws_none e] by simp
qed

lemma json_members_join:
  assumes "\<And>k v r. (k, v) \<in> set kvs \<Longrightarrow> json_value (f v @ r) r" and "kvs \<noteq> []"
  shows "json_members
           (join '', '' (map (\<lambda>(k, v). encode_str ea k @ '': '' @ f v) kvs) @ CHR ''}'' # r) r"
  using assms
proof (induction kvs rule: induct_list012)
  case 1
  then show ?case by simp
next
  case (2 kv)
  obtain k v where kv: "kv = (k, v)" by (cases kv)
  have v: "json_value (f v @ CHR ''}'' # r) (CHR ''}'' # r)"
    by (rule "2.prems"(1) [of k v]) (simp add: kv)
  have w: "json_ws (CHR '' '' # f v @ CHR ''}'' # r) (f v @ CHR ''}'' # r)"
    by (simp add: ws_more ws_none is_ws_space)
  show ?case
    using members_last [OF ws_none json_string_encode_str ws_none w v ws_none] kv by simp
next
  case (3 kv y zs)
  obtain k v where kv: "kv = (k, v)" by (cases kv)
  let ?g = "\<lambda>(k, v). encode_str ea k @ '': '' @ f v"
  let ?rest = "join '', '' (map ?g (y # zs)) @ CHR ''}'' # r"
  have v: "json_value (f v @ CHR '','' # CHR '' '' # ?rest) (CHR '','' # CHR '' '' # ?rest)"
    by (rule "3.prems"(1) [of k v]) (simp add: kv)
  have w: "json_ws (CHR '' '' # f v @ CHR '','' # CHR '' '' # ?rest)
             (f v @ CHR '','' # CHR '' '' # ?rest)"
    by (simp add: ws_more ws_none is_ws_space)
  have "json_members ?rest r"
  proof (rule "3.IH"(2))
    fix k' v' r'
    assume "(k', v') \<in> set (y # zs)"
    then have "(k', v') \<in> set (kv # y # zs)" by simp
    then show "json_value (f v' @ r') r'" by (rule "3.prems"(1))
  qed simp
  then have e: "json_members (CHR '' '' # ?rest) r"
    using is_ws_space by (rule json_members_ws)
  show ?case
    using members_more [OF ws_none json_string_encode_str ws_none w v ws_none e] kv by simp
qed

lemma str_nat_first:
  "\<exists>c ds. str_nat n = c # ds \<and> is_digit c \<and> (\<forall>r. json_digits (ds @ r) r)"
proof (cases "n = 0")
  case True
  have "str_nat 0 = [digit_char 0]" by (subst str_nat.simps) simp
  then show ?thesis using True by (simp add: is_digit_digit_char digits_none)
next
  case False
  then show ?thesis using str_nat_leading [of n] by blast
qed

lemma json_digits_fraction: "json_digits (map (\<lambda>d. digit_char (d mod 10)) ds @ r) r"
  by (induction ds) (simp_all add: digits_none digits_more is_digit_digit_char)

lemma json_frac_fraction:
  "json_frac ((if ds = [] then [] else CHR ''.'' # map (\<lambda>d. digit_char (d mod 10)) ds) @ r) r"
proof (cases ds)
  case Nil
  then show ?thesis by (simp add: frac_none)
next
  case (Cons d ds')
  have "json_frac (CHR ''.'' # digit_char (d mod 10) # map (\<lambda>d. digit_char (d mod 10)) ds' @ r) r"
    by (rule frac_some) (simp_all add: is_digit_digit_char json_digits_fraction)
  then show ?thesis using Cons by simp
qed

lemma pad2_digits:
  "\<exists>c ds. pad2 (str_nat n) = c # ds \<and> is_digit c \<and> (\<forall>r. json_digits (ds @ r) r)"
proof (cases "length (str_nat n) < 2")
  case True
  have "is_digit CHR ''0''" by (simp add: is_digit_def)
  then show ?thesis using True str_nat_digits by (simp add: pad2_def)
next
  case False
  then show ?thesis using str_nat_first [of n] by (simp add: pad2_def)
qed

lemma json_exp_exponent:
  "json_exp ((case ex of None \<Rightarrow> []
              | Some e \<Rightarrow> CHR ''e'' # (if e < 0 then CHR ''-'' else CHR ''+'')
                           # pad2 (str_nat (nat \<bar>e\<bar>))) @ r) r"
proof (cases ex)
  case None
  then show ?thesis by (simp add: exp_none)
next
  case (Some e)
  obtain c ds where p: "pad2 (str_nat (nat \<bar>e\<bar>)) = c # ds" "is_digit c"
    "\<forall>r. json_digits (ds @ r) r"
    using pad2_digits by blast
  have "json_exp (CHR ''e'' # (if e < 0 then CHR ''-'' else CHR ''+'') # c # ds @ r) r"
    by (rule exp_sign) (simp_all add: p)
  then show ?thesis using Some p(1) by simp
qed

lemma json_number_float_repr:
  "json_number (float_repr (Finite negative whole fraction exponent) @ r) r"
proof -
  let ?frac = "if fraction = [] then []
               else CHR ''.'' # map (\<lambda>d. digit_char (d mod 10)) fraction"
  let ?exp = "case exponent of None \<Rightarrow> []
              | Some e \<Rightarrow> CHR ''e'' # (if e < 0 then CHR ''-'' else CHR ''+'')
                           # pad2 (str_nat (nat \<bar>e\<bar>))"
  have i: "json_int (str_nat whole @ ?frac @ ?exp @ r) (?frac @ ?exp @ r)"
    by (rule json_int_str_nat)
  have f: "json_frac (?frac @ ?exp @ r) (?exp @ r)"
    by (rule json_frac_fraction)
  have e: "json_exp (?exp @ r) r"
    by (rule json_exp_exponent)
  show ?thesis
  proof (cases negative)
    case True
    have "json_number (CHR ''-'' # str_nat whole @ ?frac @ ?exp @ r) r"
      using i f e by (rule number_neg)
    then show ?thesis using True by simp
  next
    case False
    have "json_number (str_nat whole @ ?frac @ ?exp @ r) r"
      using i f e by (rule number_pos)
    then show ?thesis using False by simp
  qed
qed

lemma json_value_dumps: "finite_json v \<Longrightarrow> json_value (json_dumps ea v @ r) r"
proof (induction v arbitrary: r)
  case JNull
  show ?case by (simp add: value_null)
next
  case (JBool b)
  show ?case by (simp add: value_true value_false)
next
  case (JInt i)
  show ?case by (simp add: value_number json_number_str_int)
next
  case (JFloat f)
  then obtain negative whole fraction exponent
    where "f = Finite negative whole fraction exponent"
    by (cases f) simp_all
  then show ?case
    using json_number_float_repr [of negative whole fraction exponent r]
    by (simp add: value_number del: float_repr.simps)
next
  case (JStr s)
  show ?case by (simp add: value_string json_string_encode_str)
next
  case (JArr xs)
  show ?case
  proof (cases "xs = []")
    case True
    then show ?thesis by (simp add: value_empty_array ws_none)
  next
    case False
    have "json_elements (join '', '' (map (json_dumps ea) xs) @ CHR '']'' # r) r"
    proof (rule json_elements_join)
      fix x r
      assume x: "x \<in> set xs"
      then have "finite_json x" using JArr.prems by (simp add: list_all_iff)
      with x show "json_value (json_dumps ea x @ r) r" by (rule JArr.IH)
    qed (rule False)
    then show ?thesis by (simp add: value_array)
  qed
next
  case (JObj kvs)
  show ?case
  proof (cases "kvs = []")
    case True
    then show ?thesis by (simp add: value_empty_object ws_none)
  next
    case False
    have "json_members
            (join '', '' (map (\<lambda>(k, v). encode_str ea k @ '': '' @ json_dumps ea v) kvs)
               @ CHR ''}'' # r) r"
    proof (rule json_members_join)
      fix k v r
      assume kv: "(k, v) \<in> set kvs"
      then have "finite_json v" using JObj.prems by (auto simp add: list_all_iff)
      then show "json_value (json_dumps ea v @ r) r"
        using JObj.IH [of "(k, v)" v] kv by simp
    qed (rule False)
    then show ?thesis by (simp add: value_object)
  qed
qed

lemma valid_json_dumps: "finite_json v \<Longrightarrow> valid_json (json_dumps ea v)"
  using json_text [OF ws_none json_value_dumps [of v ea "[]"] ws_none] by simp

section \<open>Search adapter: properties\<close>

lemma search_try_posts:
  "search_try exa inp w = (res, w') \<Longrightarrow>
     search_calls w' = search_calls w \<and> posts w' = posts w @ [JObj (map_websearch_to_exa inp)]"
  by (auto simp add: search_try_def Let_def split: http_outcome.splits if_splits sum.splits)

lemma search_returns: "\<exists>r w'. search api_key exa inp w = (Inr r, w')"
  by (cases "search_try exa inp (w\<lparr>search_calls := search_calls w @ [inp]\<rparr>)")
     (auto simp add: search_def Let_def split: sum.splits)

lemma search_world:
  assumes "search api_key exa inp w = (res, w')"
  shows "search_calls w' = search_calls w @ [inp]
         \<and> (posts w' = posts w \<or> posts w' = posts w @ [JObj (map_websearch_to_exa inp)])"
proof (cases "api_key = []")
  case True
  with assms show ?thesis by (auto simp add: search_def Let_def)
next
  case False
  obtain r2 w2 where t: "search_try exa inp (w\<lparr>search_calls := search_calls w @ [inp]\<rparr>) = (r2, w2)"
    by (cases "search_try exa inp (w\<lparr>search_calls := search_calls w @ [inp]\<rparr>)")
  from search_try_posts [OF t] have "search_calls w2 = search_calls w @ [inp]"
    and "posts w2 = posts w @ [JObj (map_websearch_to_exa inp)]" by simp_all
  moreover have "w' = w2"
    using assms False t by (auto simp add: search_def Let_def split: sum.splits)
  ultimately show ?thesis by simp
qed

text \<open>
  C4. \<open>search\<close> returns a value for every input and never raises. Without an API key it
  returns the error envelope with context \<open>Error: EXA_API_KEY not configured\<close> and posts
  nothing. With a key it posts at most one request; a status other than 200 gives the
  envelope with context \<open>Error: Exa API error: <status>\<close>, an exception of the request or
  of decoding the body gives the envelope with context \<open>Error: <message>\<close>, and a decoded
  body of a 200 answer is returned as it is. The envelope has \<open>requestId\<close> \<open>error\<close>, an
  empty \<open>results\<close> list and a zero cost.
\<close>

theorem search_never_raises:
  "(\<exists>r. fst (search api_key exa inp w) = Inr r)
   \<and> (posts (snd (search api_key exa inp w)) = posts w
        \<or> posts (snd (search api_key exa inp w)) = posts w @ [JObj (map_websearch_to_exa inp)])
   \<and> (api_key = [] \<longrightarrow>
        search api_key exa inp w
        = (Inr (create_error_response ''EXA_API_KEY not configured''),
           w\<lparr>search_calls := search_calls w @ [inp]\<rparr>)
        \<and> posts (snd (search api_key exa inp w)) = posts w)
   \<and> (api_key \<noteq> [] \<and> exa (posts w) (JObj (map_websearch_to_exa inp)) = Response status body
        \<and> status \<noteq> 200 \<longrightarrow>
        fst (search api_key exa inp w)
        = Inr (create_error_response (''Exa API error: '' @ str_int status)))
   \<and> (api_key \<noteq> [] \<and> exa (posts w) (JObj (map_websearch_to_exa inp)) = RequestError e \<longrightarrow>
        fst (search api_key exa inp w) = Inr (create_error_response e))
   \<and> (api_key \<noteq> [] \<and> exa (posts w) (JObj (map_websearch_to_exa inp)) = Response 200 (Inl e) \<longrightarrow>
        fst (search api_key exa inp w) = Inr (create_error_response e))
   \<and> (api_key \<noteq> [] \<and> exa (posts w) (JObj (map_websearch_to_exa inp)) = Response 200 (Inr v) \<longrightarrow>
        fst (search api_key exa inp w) = Inr v)
   \<and> create_error_response m =
        JObj [(''requestId'', JStr ''error''),
              (''resolvedSearchType'', JStr ''error''),
              (''results'', JArr []),
              (''searchType'', JStr ''error''),
              (''context'', JStr (''Error: '' @ m)),
              (''costDollars'',
                 JObj [(''total'', JInt 0), (''breakDown'', JArr []),
                       (''perRequestPrices'', JObj []), (''perPagePrices'', JObj [])])]"
  using search_returns [of api_key exa inp w]
    search_world [of api_key exa inp w "fst (search api_key exa inp w)"
                     "snd (search api_key exa inp w)"]
  by (auto simp add: search_def search_try_def Let_def create_error_response_def)


lemma str_int_500: "str_int 500 = ''500''"
  by code_simp

theorem search_never_raises_witness:
  "search [] (\<lambda>h q. RequestError ''unreachable'') [(''query'', JStr ''q'')]
      \<lparr>search_calls = [], posts = []\<rparr>
   = (Inr (create_error_response ''EXA_API_KEY not configured''),
      \<lparr>search_calls = [[(''query'', JStr ''q'')]], posts = []\<rparr>)
   \<and> fst (search ''key'' (\<lambda>h q. Response 500 (Inl ''no body'')) [(''query'', JStr ''q'')]
             \<lparr>search_calls = [], posts = []\<rparr>)
     = Inr (create_error_response ''Exa API error: 500'')
   \<and> fst (search ''key'' (\<lambda>h q. RequestError ''timed out'') [(''query'', JStr ''q'')]
             \<lparr>search_calls = [], posts = []\<rparr>)
     = Inr (create_error_response ''timed out'')
   \<and> fst (search ''key'' (\<lambda>h q. Response 200 (Inl ''Expecting value'')) [(''query'', JStr ''q'')]
             \<lparr>search_calls = [], posts = []\<rparr>)
     = Inr (create_error_response ''Expecting value'')
   \<and> fst (search ''key'' (\<lambda>h q. Response 200 (Inr (JObj [(''results'', JArr [])])))
             [(''query'', JStr ''q'')] \<lparr>search_calls = [], posts = []\<rparr>)
     = Inr (JObj [(''results'', JArr [])])"
  using
    search_never_raises
      [of "[]" "\<lambda>h q. RequestError ''unreachable''" "[(''query'', JStr ''q'')]"
          "\<lparr>search_calls = [], posts = []\<rparr>"]
    search_never_raises
      [of "''key''" "\<lambda>h q. Response 500 (Inl ''no body'')" "[(''query'', JStr ''q'')]"
          "\<lparr>search_calls = [], posts = []\<rparr>" 500 "Inl ''no body''"]
    search_never_raises
      [of "''key''" "\<lambda>h q. RequestError ''timed out''" "[(''query'', JStr ''q'')]"
          "\<lparr>search_calls = [], posts = []\<rparr>" 0 "Inl []" "''timed out''"]
    search_never_raises
      [of "''key''" "\<lambda>h q. Response 200 (Inl ''Expecting value'')" "[(''query'', JStr ''q'')]"
          "\<lparr>search_calls = [], posts = []\<rparr>" 0 "Inl []" "''Expecting value''"]
    search_never_raises
      [of "''key''" "\<lambda>h q. Response 200 (Inr (JObj [(''results'', JArr [])]))"
          "[(''query'', JStr ''q'')]"
          "\<lparr>search_calls = [], posts = []\<rparr>" 0 "Inl []" "[]" "JObj [(''results'', JArr [])]"]
    str_int_500
  by simp

section \<open>Interceptor: no trigger, no change\<close>

lemma execute_websearch_dumps:
  "\<exists>r w'. process_websearch_via_exa api_key exa inp w = (Inr r, w')
          \<and> execute_websearch api_key exa inp w = (json_dumps False r, w')"
  using search_returns [of api_key exa inp w]
  by (auto simp add: execute_websearch_def process_websearch_via_exa_def)

text \<open>
  C10. The search called by the interceptor never raises, so the handler that writes
  \<open>{"error": "Search failed: ...", "results": []}\<close> is never entered: the new content of a
  matched placeholder block is the serialization (\<open>ensure_ascii=False\<close>) of the value the
  adapter returned.
\<close>

theorem exception_branch_unreachable:
  "(\<forall>e w'. process_websearch_via_exa api_key exa inp w \<noteq> (Inl e, w'))
   \<and> (\<exists>r w'. process_websearch_via_exa api_key exa inp w = (Inr r, w')
         \<and> execute_websearch api_key exa inp w = (json_dumps False r, w')
         \<and> (is_placeholder s \<longrightarrow>
              visit_user_block api_key exa aid inp (ToolResult aid (CStr s)) w
              = (ToolResult aid (CStr (json_dumps False r)), w')))"
  using execute_websearch_dumps [of api_key exa inp w]
  by auto

lemma visit_user_block_unmatched:
  "\<not> matched_placeholder (ToolUse aid ''WebSearch'' inp) u
   \<Longrightarrow> visit_user_block api_key exa aid inp u w = (u, w)"
  by (cases "(api_key, exa, aid, inp, u, w)" rule: visit_user_block.cases) auto

lemma scan_user_blocks_unmatched:
  "\<forall>u \<in> set us. \<not> matched_placeholder (ToolUse aid ''WebSearch'' inp) u
   \<Longrightarrow> scan_user_blocks api_key exa aid inp us w = (us, w)"
  by (induction us arbitrary: w) (simp_all add: visit_user_block_unmatched)

lemma scan_assistant_blocks_unmatched:
  "\<forall>a \<in> set as. \<forall>u \<in> set us. \<not> matched_placeholder a u
   \<Longrightarrow> scan_assistant_blocks api_key exa as us w = (us, w)"
proof (induction as arbitrary: w)
  case Nil
  show ?case by simp
next
  case (Cons a as)
  then have rest: "scan_assistant_blocks api_key exa as us w = (us, w)" for w by simp
  show ?case
  proof (cases a)
    case (ToolUse aid name inp)
    show ?thesis
    proof (cases "name = ''WebSearch''")
      case True
      have "\<forall>u \<in> set us. \<not> matched_placeholder (ToolUse aid ''WebSearch'' inp) u"
        using Cons.prems ToolUse True by simp
      then have "scan_user_blocks api_key exa aid inp us w = (us, w)"
        by (rule scan_user_blocks_unmatched)
      then show ?thesis using ToolUse True rest by simp
    next
      case False
      then show ?thesis using ToolUse rest by simp
    qed
  qed (simp_all add: rest)
qed

lemma intercept_no_trigger:
  assumes "\<not> trigger (messages request)"
  shows "intercept_websearch_in_request api_key exa request w = (request, w)"
proof -
  let ?msgs = "messages request"
  let ?n = "length ?msgs"
  show ?thesis
  proof (cases "?n \<ge> 2 \<and> role (?msgs ! (?n - 2)) = Assistant \<and> role (?msgs ! (?n - 1)) = User")
    case False
    then show ?thesis
      by (auto simp add: intercept_websearch_in_request_def Let_def)
  next
    case True
    show ?thesis
    proof (cases "content (?msgs ! (?n - 2))")
      case (BlockContent as)
      show ?thesis
      proof (cases "content (?msgs ! (?n - 1))")
        case ub: (BlockContent us)
        have "\<forall>a \<in> set as. \<forall>u \<in> set us. \<not> matched_placeholder a u"
          using assms True BlockContent ub by (simp add: trigger_def)
        then have s: "scan_assistant_blocks api_key exa as us w = (us, w)"
          by (rule scan_assistant_blocks_unmatched)
        have "(?msgs ! (?n - 1))\<lparr>content := BlockContent us\<rparr> = ?msgs ! (?n - 1)"
          using ub by simp
        then have "?msgs[?n - 1 := (?msgs ! (?n - 1))\<lparr>content := BlockContent us\<rparr>] = ?msgs"
          by simp
        then show ?thesis
          using True BlockContent ub s
          by (simp add: intercept_websearch_in_request_def Let_def)
      qed (use True BlockContent in \<open>simp_all add: intercept_websearch_in_request_def Let_def\<close>)
    qed (use True in \<open>simp_all add: intercept_websearch_in_request_def Let_def\<close>)
  qed
qed


theorem exception_branch_unreachable_witness:
  "visit_user_block ''key'' (\<lambda>h q. RequestError ''timed out'') ''toolu_1''
      [(''query'', JStr ''q'')] (ToolResult ''toolu_1'' (CStr ''API Error: 500''))
      \<lparr>search_calls = [], posts = []\<rparr>
   = (ToolResult ''toolu_1'' (CStr (json_dumps False (create_error_response ''timed out''))),
      \<lparr>search_calls = [[(''query'', JStr ''q'')]],
        posts = [JObj (map_websearch_to_exa [(''query'', JStr ''q'')])]\<rparr>)"
  using exception_branch_unreachable
    [of "''key''" "\<lambda>h q. RequestError ''timed out''" "[(''query'', JStr ''q'')]"
        "\<lparr>search_calls = [], posts = []\<rparr>" "''API Error: 500''" "''toolu_1''"]
  by (simp add: is_placeholder_def process_websearch_via_exa_def search_def search_try_def)

text \<open>
  C1. When the trigger condition does not hold (fewer than two turns, wrong roles, a content
  that is not a block list, or no \<open>WebSearch\<close> \<open>tool_use\<close> block with a \<open>tool_result\<close> block of
  its id whose content is a placeholder string), the interceptor returns the request
  unchanged, and calls no search.
\<close>

theorem intercept_identity:
  assumes "\<not> trigger (messages request)"
  shows "intercept_websearch_in_request api_key exa request w = (request, w)"
  using assms by (rule intercept_no_trigger)

theorem intercept_identity_witness:
  "intercept_websearch_in_request ''key'' (\<lambda>h q. RequestError ''timed out'') test_request
     \<lparr>search_calls = [], posts = []\<rparr>
   = (test_request, \<lparr>search_calls = [], posts = []\<rparr>)"
proof -
  have "\<not> trigger (messages test_request)"
    by (simp add: test_request_def trigger_def is_placeholder_def)
  then show ?thesis
    by (rule intercept_identity)
qed

section \<open>Interceptor: the replaced content and the frame\<close>

lemma finite_create_error_response: "finite_json (create_error_response e)"
  by (simp add: create_error_response_def)

lemma search_result_finite:
  assumes "finite_service exa" and "search api_key exa inp w = (Inr r, w')"
  shows "finite_json r"
proof (cases "api_key = []")
  case True
  then show ?thesis
    using assms(2) finite_create_error_response by (auto simp add: search_def Let_def)
next
  case False
  let ?w = "w\<lparr>search_calls := search_calls w @ [inp]\<rparr>"
  show ?thesis
  proof (cases "exa (posts ?w) (JObj (map_websearch_to_exa inp))")
    case (RequestError e)
    then show ?thesis
      using assms(2) False finite_create_error_response
      by (auto simp add: search_def search_try_def Let_def)
  next
    case (Response status_code body)
    show ?thesis
    proof (cases body)
      case (Inl e)
      then show ?thesis
        using assms(2) False Response finite_create_error_response
        by (auto simp add: search_def search_try_def Let_def split: if_splits)
    next
      case (Inr v)
      then have "finite_json v"
        using assms(1) Response by (auto simp add: finite_service_def)
      then show ?thesis
        using assms(2) False Response Inr finite_create_error_response
        by (auto simp add: search_def search_try_def Let_def split: if_splits)
    qed
  qed
qed

lemma execute_websearch_valid:
  assumes "finite_service exa" and "execute_websearch api_key exa inp w = (s, w')"
  shows "valid_json s"
proof -
  obtain r w2 where p: "process_websearch_via_exa api_key exa inp w = (Inr r, w2)"
    and e: "execute_websearch api_key exa inp w = (json_dumps False r, w2)"
    using execute_websearch_dumps [of api_key exa inp w] by blast
  have "finite_json r"
    using assms(1) p by (auto simp add: process_websearch_via_exa_def intro: search_result_finite)
  then have "valid_json (json_dumps False r)" by (rule valid_json_dumps)
  then show ?thesis using assms(2) e by simp
qed

lemma visit_user_block_step:
  assumes "finite_service exa" and "visit_user_block api_key exa aid inp u w = (u', w')"
  shows "if matched_placeholder (ToolUse aid ''WebSearch'' inp) u
         then result_id u' = result_id u \<and> valid_result u' else u' = u"
proof (cases "matched_placeholder (ToolUse aid ''WebSearch'' inp) u")
  case False
  then show ?thesis
    using assms(2) visit_user_block_unmatched [of aid inp u api_key exa w] by simp
next
  case True
  then obtain s where u: "u = ToolResult aid (CStr s)" and p: "is_placeholder s"
    by (cases "(ToolUse aid ''WebSearch'' inp, u)" rule: matched_placeholder.cases) auto
  obtain s' w2 where e: "execute_websearch api_key exa inp w = (s', w2)"
    by (cases "execute_websearch api_key exa inp w")
  have "valid_json s'" using assms(1) e by (rule execute_websearch_valid)
  moreover have "u' = ToolResult aid (CStr s')"
    using assms(2) u p e by simp
  ultimately show ?thesis using True u by simp
qed

lemma scan_user_blocks_step:
  "finite_service exa \<Longrightarrow> scan_user_blocks api_key exa aid inp us w = (us', w') \<Longrightarrow>
   list_all2 (\<lambda>u u'. if matched_placeholder (ToolUse aid ''WebSearch'' inp) u
                      then result_id u' = result_id u \<and> valid_result u' else u' = u) us us'"
proof (induction us arbitrary: w us' w')
  case Nil
  then show ?case by simp
next
  case (Cons u us)
  obtain u1 w1 where v: "visit_user_block api_key exa aid inp u w = (u1, w1)"
    by (cases "visit_user_block api_key exa aid inp u w")
  obtain us1 w2 where r: "scan_user_blocks api_key exa aid inp us w1 = (us1, w2)"
    by (cases "scan_user_blocks api_key exa aid inp us w1")
  have "us' = u1 # us1" using Cons.prems(2) v r by simp
  then show ?case
    using visit_user_block_step [OF Cons.prems(1) v] Cons.IH [OF Cons.prems(1) r] by simp
qed

text \<open>A block that is a valid result stays one, whatever matches it later.\<close>

lemma block_frame_valid:
  "block_frame as u u' \<Longrightarrow> valid_result u \<Longrightarrow> valid_result u'"
  by (auto simp add: block_frame_def split: if_splits)

lemma scan_assistant_blocks_frame:
  "finite_service exa \<Longrightarrow> scan_assistant_blocks api_key exa as us w = (us', w') \<Longrightarrow>
   list_all2 (block_frame as) us us'"
proof (induction as arbitrary: us w us' w')
  case Nil
  then show ?case by (simp add: block_frame_def list_all2_same list.rel_refl)
next
  case (Cons a as)
  have weaken: "list_all2 (block_frame (a # as)) us us'"
    if "scan_assistant_blocks api_key exa as us w = (us', w')"
      and "\<And>u. \<not> matched_placeholder a u"
  proof -
    have "list_all2 (block_frame as) us us'" using Cons.prems(1) that(1) by (rule Cons.IH)
    then show ?thesis
      by (rule list_all2_mono) (simp add: block_frame_def that(2))
  qed
  show ?case
  proof (cases a)
    case (ToolUse aid name inp)
    show ?thesis
    proof (cases "name = ''WebSearch''")
      case False
      then have "scan_assistant_blocks api_key exa as us w = (us', w')"
        using Cons.prems(2) ToolUse by simp
      moreover have "\<not> matched_placeholder a u" for u
        using False ToolUse
        by (cases "(a, u)" rule: matched_placeholder.cases) auto
      ultimately show ?thesis by (rule weaken)
    next
      case True
      obtain um w1 where s: "scan_user_blocks api_key exa aid inp us w = (um, w1)"
        by (cases "scan_user_blocks api_key exa aid inp us w")
      then have r: "scan_assistant_blocks api_key exa as um w1 = (us', w')"
        using Cons.prems(2) ToolUse True by simp
      have a: "a = ToolUse aid ''WebSearch'' inp" using ToolUse True by simp
      show ?thesis
      proof (rule list_all2_trans
               [OF _ scan_user_blocks_step [OF Cons.prems(1) s] Cons.IH [OF Cons.prems(1) r]])
        fix u m u'
        assume 1: "if matched_placeholder (ToolUse aid ''WebSearch'' inp) u
                   then result_id m = result_id u \<and> valid_result m else m = u"
          and 2: "block_frame as m u'"
        show "block_frame (a # as) u u'"
        proof (cases "matched_placeholder (ToolUse aid ''WebSearch'' inp) u")
          case True
          then have m: "result_id m = result_id u" "valid_result m" using 1 by simp_all
          have "valid_result u'" using 2 m(2) by (rule block_frame_valid)
          moreover have "result_id u' = result_id u"
            using 2 m(1) by (auto simp add: block_frame_def split: if_splits)
          ultimately show ?thesis using True a by (simp add: block_frame_def)
        next
          case False
          then have "m = u" using 1 by simp
          then show ?thesis using 2 False a by (simp add: block_frame_def)
        qed
      qed
    qed
  next
    case (TextBlock t)
    then show ?thesis using Cons.prems(2) by (intro weaken) simp_all
  next
    case (ToolResult t c)
    then show ?thesis using Cons.prems(2) by (intro weaken) simp_all
  next
    case (OtherBlock j)
    then show ?thesis using Cons.prems(2) by (intro weaken) simp_all
  qed
qed

text \<open>
  When the trigger condition holds and the search service sends finite floats only, the
  interceptor changes nothing but the content of the matched placeholder blocks of the last
  turn: the request's other fields, every turn before the last, the role of the last turn
  and the number and order of its blocks are as they were; a placeholder block matched by a
  \<open>WebSearch\<close> block keeps its id and gets a string that is valid JSON as content, and every
  other block of the last turn is unchanged.
\<close>

lemma intercept_frame:
  assumes "trigger (messages request)" and "finite_service exa"
  shows "\<exists>assistant_blocks user_blocks user_blocks'.
           content (messages request ! (length (messages request) - 2)) = BlockContent assistant_blocks
         \<and> content (messages request ! (length (messages request) - 1)) = BlockContent user_blocks
         \<and> fst (intercept_websearch_in_request api_key exa request w)
             = request\<lparr>messages :=
                 (messages request)
                   [length (messages request) - 1 :=
                      (messages request ! (length (messages request) - 1))
                        \<lparr>content := BlockContent user_blocks'\<rparr>]\<rparr>
         \<and> list_all2 (block_frame assistant_blocks) user_blocks user_blocks'
         \<and> (\<exists>u' \<in> set user_blocks'. valid_result u')
         \<and> length (messages (fst (intercept_websearch_in_request api_key exa request w)))
             = length (messages request)
         \<and> (\<forall>i. i < length (messages request) - 1 \<longrightarrow>
               messages (fst (intercept_websearch_in_request api_key exa request w)) ! i
               = messages request ! i)
         \<and> role (messages (fst (intercept_websearch_in_request api_key exa request w))
                  ! (length (messages request) - 1)) = User"
proof -
  let ?msgs = "messages request"
  let ?n = "length ?msgs"
  from assms(1) have n: "?n \<ge> 2" and r2: "role (?msgs ! (?n - 2)) = Assistant"
    and r1: "role (?msgs ! (?n - 1)) = User"
    by (simp_all add: trigger_def)
  from assms(1) obtain as us where
    ca: "content (?msgs ! (?n - 2)) = BlockContent as"
    and cu: "content (?msgs ! (?n - 1)) = BlockContent us"
    and m: "\<exists>a \<in> set as. \<exists>u \<in> set us. matched_placeholder a u"
    by (auto simp add: trigger_def split: msg_content.splits)
  obtain us' w' where s: "scan_assistant_blocks api_key exa as us w = (us', w')"
    by (cases "scan_assistant_blocks api_key exa as us w")
  have res: "fst (intercept_websearch_in_request api_key exa request w)
             = request\<lparr>messages := ?msgs[?n - 1 := (?msgs ! (?n - 1))\<lparr>content := BlockContent us'\<rparr>]\<rparr>"
    using n r1 r2 ca cu s by (simp add: intercept_websearch_in_request_def Let_def)
  have fr: "list_all2 (block_frame as) us us'"
    using assms(2) s by (rule scan_assistant_blocks_frame)
  from m obtain a u where au: "a \<in> set as" "u \<in> set us" "matched_placeholder a u" by blast
  from au(2) obtain j where j: "j < length us" "us ! j = u"
    by (auto simp add: in_set_conv_nth)
  have "block_frame as (us ! j) (us' ! j)"
    using fr j(1) by (rule list_all2_nthD)
  moreover have "\<exists>a \<in> set as. matched_placeholder a (us ! j)"
    using au(1,3) j(2) by blast
  ultimately have "valid_result (us' ! j)"
    by (simp add: block_frame_def)
  moreover have "j < length us'"
    using fr j(1) by (simp add: list_all2_lengthD)
  ultimately have ex: "\<exists>u' \<in> set us'. valid_result u'"
    using nth_mem by blast
  have pos: "?n - 1 < ?n" using n by simp
  show ?thesis
    using ca cu res fr ex r1 pos by (intro exI [of _ as] exI [of _ us] exI [of _ us']) simp
qed

text \<open>A text that starts like no JSON value is not valid JSON.\<close>

lemma json_ws_not_ws: "\<not> is_ws c \<Longrightarrow> json_ws (c # s) r \<Longrightarrow> r = c # s"
  by (erule json_ws.cases) auto

lemma json_ws_one: "\<not> is_ws d \<Longrightarrow> json_ws (c # d # s) r \<Longrightarrow> r = c # d # s \<or> r = d # s"
  by (erule json_ws.cases) (auto dest: json_ws_not_ws)

lemma json_chars_plain:
  "c \<noteq> CHR 0x22 \<Longrightarrow> c \<noteq> CHR 0x5C \<Longrightarrow> json_chars (c # s) r \<Longrightarrow> json_chars s r"
  by (erule json_chars.cases) auto

lemma json_chars_quote: "json_chars (CHR 0x22 # s) r \<Longrightarrow> r = s"
  by (erule json_chars.cases) (auto simp add: is_unescaped_def)

lemma json_string_quote: "json_string s r \<Longrightarrow> \<exists>t. s = CHR 0x22 # t \<and> json_chars t r"
  by (erule json_string.cases) auto

lemma json_int_first: "json_int s r \<Longrightarrow> \<exists>c t. s = c # t \<and> is_digit c"
  by (erule json_int.cases) (auto simp add: is_digit_def)

lemma json_number_first:
  "json_number s r \<Longrightarrow> \<exists>c t. s = c # t \<and> (c = CHR ''-'' \<or> is_digit c)"
  by (erule json_number.cases) (auto dest: json_int_first)

lemma json_value_first: "json_value s r \<Longrightarrow> \<exists>c t. s = c # t \<and> value_first c"
  by (erule json_value.cases)
     (auto simp add: value_first_def dest: json_number_first json_string_quote)

lemma json_members_first:
  "json_members s r \<Longrightarrow>
   \<exists>s1 s2 s3 s4 s5. json_ws s s1 \<and> json_string s1 s2 \<and> json_ws s2 (CHR '':'' # s3)
      \<and> json_ws s3 s4 \<and> json_value s4 s5"
  by (erule json_members.cases) blast+

lemma score_infinity_invalid: "\<not> valid_json score_infinity"
proof
  let ?key = "[CHR 0x22, CHR ''s'', CHR ''c'', CHR ''o'', CHR ''r'', CHR ''e'', CHR 0x22]"
  let ?inf = "[CHR ''I'', CHR ''n'', CHR ''f'', CHR ''i'', CHR ''n'', CHR ''i'',
               CHR ''t'', CHR ''y'', CHR ''}'']"
  assume "valid_json score_infinity"
  then obtain s1 s2 where a: "json_ws score_infinity s1" "json_value s1 s2"
    by (auto elim: valid_json.cases)
  have "s1 = score_infinity"
    using a(1) unfolding score_infinity_def by (rule json_ws_not_ws [rotated]) (simp add: is_ws_def)
  then have "json_value (CHR ''{'' # ?key @ CHR '':'' # CHR '' '' # ?inf) s2"
    using a(2) by (simp add: score_infinity_def)
  then have "json_ws (?key @ CHR '':'' # CHR '' '' # ?inf) (CHR ''}'' # s2)
             \<or> json_members (?key @ CHR '':'' # CHR '' '' # ?inf) s2"
    by (rule json_value.cases) (auto dest: json_number_first json_string_quote simp add: is_digit_def)
  moreover have "\<not> json_ws (?key @ CHR '':'' # CHR '' '' # ?inf) (CHR ''}'' # s2)"
    by (auto dest!: json_ws_not_ws [rotated] simp add: is_ws_def)
  ultimately have "json_members (?key @ CHR '':'' # CHR '' '' # ?inf) s2" by blast
  then obtain t1 t2 t3 t4 t5 where
    m: "json_ws (?key @ CHR '':'' # CHR '' '' # ?inf) t1" "json_string t1 t2"
       "json_ws t2 (CHR '':'' # t3)" "json_ws t3 t4" "json_value t4 t5"
    using json_members_first by blast
  have t1: "t1 = ?key @ CHR '':'' # CHR '' '' # ?inf"
    using m(1) by (auto dest!: json_ws_not_ws [rotated] simp add: is_ws_def)
  have "json_chars (tl ?key @ CHR '':'' # CHR '' '' # ?inf) t2"
    using m(2) t1 by (auto dest: json_string_quote)
  then have "json_chars (CHR 0x22 # CHR '':'' # CHR '' '' # ?inf) t2"
    by (auto dest!: json_chars_plain [rotated 2])
  then have t2: "t2 = CHR '':'' # CHR '' '' # ?inf"
    by (rule json_chars_quote)
  have t3: "t3 = CHR '' '' # ?inf"
    using m(3) t2 by (auto dest!: json_ws_not_ws [rotated] simp add: is_ws_def)
  have "t4 = CHR '' '' # ?inf \<or> t4 = ?inf"
    using m(4) t3 by (auto dest!: json_ws_one [rotated] simp add: is_ws_def)
  then show False
    using m(5) by (auto dest!: json_value_first simp add: value_first_def is_digit_def)
qed

text \<open>
  C2. When the trigger condition holds, the content of the matched \<open>tool_result\<close> block is to
  become a string that is valid JSON. The code writes the search result with \<open>json.dumps\<close>
  and its default \<open>allow_nan\<close>: when the search service answers the test request (with a
  placeholder that carries a marker) with the body \<open>{"score": 1e400}\<close>, the new content is
  \<open>{"score": Infinity}\<close>, which is not valid JSON.
\<close>

theorem infinite_score_not_json:
  "trigger (messages placeholder_request)
   \<and> fst (intercept_websearch_in_request ''key'' overflow_service placeholder_request no_world)
     = placeholder_request\<lparr>messages :=
         (messages placeholder_request)
           [2 := \<lparr>role = User,
                  content = BlockContent
                    [ToolResult ''test_tool_123'' (CStr score_infinity)]\<rparr>]\<rparr>
   \<and> \<not> valid_json score_infinity"
proof -
  have t: "trigger (messages placeholder_request)"
    by (simp add: placeholder_request_def trigger_def is_placeholder_def)
  have d: "json_dumps False (JObj [(''score'', JFloat PosInf)]) = score_infinity"
    by (simp add: encode_str_def escape_char_def score_infinity_def)
  have "fst (intercept_websearch_in_request ''key'' overflow_service placeholder_request no_world)
     = placeholder_request\<lparr>messages :=
         (messages placeholder_request)
           [2 := \<lparr>role = User,
                  content = BlockContent
                    [ToolResult ''test_tool_123''
                       (CStr (json_dumps False (JObj [(''score'', JFloat PosInf)])))]\<rparr>]\<rparr>"
    by (simp add: placeholder_request_def intercept_websearch_in_request_def Let_def
          is_placeholder_def execute_websearch_def process_websearch_via_exa_def search_def
          search_try_def overflow_service_def no_world_def del: json_dumps.simps)
  then show ?thesis
    using t d score_infinity_invalid by simp
qed

text \<open>
  The same request with a service that sends no float: the hypotheses of \<open>intercept_frame\<close>
  hold, and the new content is the serialized result.
\<close>

lemma intercept_frame_example:
  "trigger (messages placeholder_request) \<and> finite_service no_results_service
   \<and> fst (intercept_websearch_in_request ''key'' no_results_service placeholder_request no_world)
     = placeholder_request\<lparr>messages :=
         (messages placeholder_request)
           [2 := \<lparr>role = User,
                  content = BlockContent
                    [ToolResult ''test_tool_123''
                       (CStr (json_dumps False (JObj [(''results'', JArr [])])))]\<rparr>]\<rparr>
   \<and> valid_json (json_dumps False (JObj [(''results'', JArr [])]))"
proof -
  have t: "trigger (messages placeholder_request)"
    by (simp add: placeholder_request_def trigger_def is_placeholder_def)
  have f: "finite_service no_results_service"
    by (auto simp add: finite_service_def no_results_service_def)
  have e: "fst (intercept_websearch_in_request ''key'' no_results_service placeholder_request
                  no_world)
     = placeholder_request\<lparr>messages :=
         (messages placeholder_request)
           [2 := \<lparr>role = User,
                  content = BlockContent
                    [ToolResult ''test_tool_123''
                       (CStr (json_dumps False (JObj [(''results'', JArr [])])))]\<rparr>]\<rparr>"
    by (simp add: placeholder_request_def intercept_websearch_in_request_def Let_def
          is_placeholder_def execute_websearch_def process_websearch_via_exa_def search_def
          search_try_def no_results_service_def no_world_def del: json_dumps.simps)
  have "valid_json (json_dumps False (JObj [(''results'', JArr [])]))"
    by (rule valid_json_dumps) simp
  with t f e show ?thesis by simp
qed

section \<open>Interceptor: the number of searches\<close>

lemma execute_websearch_world:
  assumes "execute_websearch api_key exa inp w = (s, w')"
  shows "length (search_calls w') = Suc (length (search_calls w))
         \<and> length (posts w) \<le> length (posts w') \<and> length (posts w') \<le> Suc (length (posts w))"
proof -
  obtain res where "search api_key exa inp w = (res, w')"
    using assms
    by (cases "search api_key exa inp w")
       (auto simp add: execute_websearch_def process_websearch_via_exa_def split: sum.splits)
  from search_world [OF this] show ?thesis by auto
qed

lemma world_step_refl: "world_step 0 w w"
  by (simp add: world_step_def)

lemma world_step_trans: "world_step j w w1 \<Longrightarrow> world_step k w1 w2 \<Longrightarrow> world_step (j + k) w w2"
  by (auto simp add: world_step_def)

lemma visit_user_block_world:
  assumes "visit_user_block api_key exa aid inp u w = (u', w')"
  shows "result_id u' = result_id u
         \<and> world_step (if result_id u = Some aid then 1 else 0) w w'"
proof (cases "matched_placeholder (ToolUse aid ''WebSearch'' inp) u")
  case False
  then show ?thesis
    using assms visit_user_block_unmatched [of aid inp u api_key exa w]
    by (simp add: world_step_def)
next
  case True
  then obtain s where u: "u = ToolResult aid (CStr s)" and p: "is_placeholder s"
    by (cases "(ToolUse aid ''WebSearch'' inp, u)" rule: matched_placeholder.cases) auto
  obtain s' w2 where e: "execute_websearch api_key exa inp w = (s', w2)"
    by (cases "execute_websearch api_key exa inp w")
  have "u' = ToolResult aid (CStr s')" and "w' = w2"
    using assms u p e by simp_all
  then show ?thesis
    using u execute_websearch_world [OF e] by (simp add: world_step_def)
qed

lemma scan_user_blocks_world:
  "scan_user_blocks api_key exa aid inp us w = (us', w') \<Longrightarrow>
   map result_id us' = map result_id us
   \<and> world_step (length (filter (\<lambda>u. result_id u = Some aid) us)) w w'"
proof (induction us arbitrary: w us' w')
  case Nil
  then show ?case by (simp add: world_step_refl)
next
  case (Cons u us)
  obtain u1 w1 where v: "visit_user_block api_key exa aid inp u w = (u1, w1)"
    by (cases "visit_user_block api_key exa aid inp u w")
  obtain us1 w2 where r: "scan_user_blocks api_key exa aid inp us w1 = (us1, w2)"
    by (cases "scan_user_blocks api_key exa aid inp us w1")
  have eq: "us' = u1 # us1" "w' = w2" using Cons.prems v r by simp_all
  have v1: "result_id u1 = result_id u"
    and v2: "world_step (if result_id u = Some aid then 1 else 0) w w1"
    using visit_user_block_world [OF v] by simp_all
  have r1: "map result_id us1 = map result_id us"
    and r2: "world_step (length (filter (\<lambda>u. result_id u = Some aid) us)) w1 w2"
    using Cons.IH [OF r] by simp_all
  have "world_step ((if result_id u = Some aid then 1 else 0)
                    + length (filter (\<lambda>u. result_id u = Some aid) us)) w w2"
    using v2 r2 by (rule world_step_trans)
  moreover have "(if result_id u = Some aid then 1 else 0)
                 + length (filter (\<lambda>u. result_id u = Some aid) us)
                 = length (filter (\<lambda>u. result_id u = Some aid) (u # us))"
    by simp
  ultimately have "world_step (length (filter (\<lambda>u. result_id u = Some aid) (u # us))) w w2"
    by (simp only:)
  then show ?case
    using eq v1 r1 by simp
qed

lemma id_matches_result_ids:
  assumes "map result_id us' = map result_id us"
  shows "id_matches a us' = id_matches a us"
proof -
  let ?Q = "\<lambda>i. use_id a \<noteq> None \<and> i = use_id a"
  have e: "id_matches a bs = length (filter ?Q (map result_id bs))" for bs
  proof -
    have "filter ?Q (map result_id bs) = map result_id (filter (?Q \<circ> result_id) bs)"
      by (rule filter_map)
    then have "length (filter ?Q (map result_id bs)) = length (filter (?Q \<circ> result_id) bs)"
      by simp
    then show ?thesis by (simp add: id_matches_def comp_def)
  qed
  show ?thesis
    by (simp only: e assms)
qed

lemma matching_pairs_result_ids:
  "map result_id us' = map result_id us \<Longrightarrow> matching_pairs as us' = matching_pairs as us"
  using id_matches_result_ids [of us' us] by (simp add: matching_pairs_def)

lemma scan_assistant_blocks_world:
  "scan_assistant_blocks api_key exa as us w = (us', w') \<Longrightarrow>
   map result_id us' = map result_id us \<and> world_step (matching_pairs as us) w w'"
proof (induction as arbitrary: us w us' w')
  case Nil
  then show ?case by (simp add: world_step_refl matching_pairs_def)
next
  case (Cons a as)
  have skip: "map result_id us' = map result_id us \<and> world_step (matching_pairs (a # as) us) w w'"
    if "scan_assistant_blocks api_key exa as us w = (us', w')" and "use_id a = None"
    using Cons.IH [OF that(1)] that(2) by (simp add: matching_pairs_def id_matches_def)
  show ?case
  proof (cases a)
    case (ToolUse aid name inp)
    show ?thesis
    proof (cases "name = ''WebSearch''")
      case False
      then show ?thesis using Cons.prems ToolUse by (intro skip) simp_all
    next
      case True
      obtain um w1 where s: "scan_user_blocks api_key exa aid inp us w = (um, w1)"
        by (cases "scan_user_blocks api_key exa aid inp us w")
      then have r: "scan_assistant_blocks api_key exa as um w1 = (us', w')"
        using Cons.prems ToolUse True by simp
      note s1 = scan_user_blocks_world [OF s]
      note s2 = Cons.IH [OF r]
      have ids: "map result_id us' = map result_id us" using s1 s2 by simp
      have "id_matches a us = length (filter (\<lambda>u. result_id u = Some aid) us)"
        using ToolUse True by (simp add: id_matches_def)
      moreover have "matching_pairs as um = matching_pairs as us"
        by (rule matching_pairs_result_ids) (simp add: s1)
      ultimately have "matching_pairs (a # as) us
                       = length (filter (\<lambda>u. result_id u = Some aid) us) + matching_pairs as um"
        by (simp add: matching_pairs_def)
      moreover have "world_step (length (filter (\<lambda>u. result_id u = Some aid) us)
                                 + matching_pairs as um) w w'"
        using conjunct2 [OF s1] conjunct2 [OF s2] by (rule world_step_trans)
      ultimately have "world_step (matching_pairs (a # as) us) w w'"
        by (simp only:)
      with ids show ?thesis by simp
    qed
  next
    case (TextBlock t)
    then show ?thesis using Cons.prems by (intro skip) simp_all
  next
    case (ToolResult t c)
    then show ?thesis using Cons.prems by (intro skip) simp_all
  next
    case (OtherBlock j)
    then show ?thesis using Cons.prems by (intro skip) simp_all
  qed
qed


text \<open>
  C3, as the code has it. One invocation of the interceptor calls the search at most once
  for each pair of a \<open>WebSearch\<close> \<open>tool_use\<close> block of the second-to-last turn and a
  \<open>tool_result\<close> block of the last turn that carries its id: at most once when there is at
  most one such pair, and not at all when the trigger condition does not hold. Each search
  posts at most one request to the search service; none is repeated.
\<close>

theorem search_calls_bounded:
  "length (search_calls w)
     \<le> length (search_calls (snd (intercept_websearch_in_request api_key exa request w)))
   \<and> length (search_calls (snd (intercept_websearch_in_request api_key exa request w)))
     \<le> length (search_calls w) + websearch_pairs (messages request)
   \<and> length (posts (snd (intercept_websearch_in_request api_key exa request w)))
       + length (search_calls w)
     \<le> length (posts w)
       + length (search_calls (snd (intercept_websearch_in_request api_key exa request w)))
   \<and> (websearch_pairs (messages request) \<le> 1 \<longrightarrow>
        length (search_calls (snd (intercept_websearch_in_request api_key exa request w)))
        \<le> length (search_calls w) + 1)
   \<and> (\<not> trigger (messages request) \<longrightarrow>
        snd (intercept_websearch_in_request api_key exa request w) = w)"
proof -
  let ?msgs = "messages request"
  let ?n = "length ?msgs"
  let ?w' = "snd (intercept_websearch_in_request api_key exa request w)"
  have step: "world_step (websearch_pairs ?msgs) w ?w'"
  proof (cases "?n \<ge> 2 \<and> role (?msgs ! (?n - 2)) = Assistant \<and> role (?msgs ! (?n - 1)) = User")
    case False
    then have "?w' = w"
      by (auto simp add: intercept_websearch_in_request_def Let_def)
    then show ?thesis by (simp add: world_step_def)
  next
    case True
    show ?thesis
    proof (cases "content (?msgs ! (?n - 2))")
      case (BlockContent as)
      show ?thesis
      proof (cases "content (?msgs ! (?n - 1))")
        case ub: (BlockContent us)
        obtain us' w2 where s: "scan_assistant_blocks api_key exa as us w = (us', w2)"
          by (cases "scan_assistant_blocks api_key exa as us w")
        have "?w' = w2"
          using True BlockContent ub s by (simp add: intercept_websearch_in_request_def Let_def)
        moreover have "websearch_pairs ?msgs = matching_pairs as us"
          using True BlockContent ub by (simp add: websearch_pairs_def)
        ultimately show ?thesis
          using scan_assistant_blocks_world [OF s] by simp
      qed (use True BlockContent in
            \<open>simp_all add: intercept_websearch_in_request_def Let_def world_step_def\<close>)
    qed (use True in \<open>simp_all add: intercept_websearch_in_request_def Let_def world_step_def\<close>)
  qed
  have "\<not> trigger ?msgs \<Longrightarrow> ?w' = w"
    by (simp add: intercept_no_trigger)
  with step show ?thesis
    by (auto simp add: world_step_def)
qed

text \<open>
  An assistant turn with two \<open>WebSearch\<close> blocks, each answered by a placeholder: the
  interceptor searches twice, once with each input.
\<close>

theorem two_searches_counterexample:
  "search_calls (snd (intercept_websearch_in_request ''key'' no_results_service
                        two_search_request no_world))
   = [[(''query'', JStr ''first'')], [(''query'', JStr ''second'')]]
   \<and> \<not> length (search_calls (snd (intercept_websearch_in_request ''key'' no_results_service
                                     two_search_request no_world)))
        \<le> length (search_calls no_world) + 1"
proof -
  have "search_calls (snd (intercept_websearch_in_request ''key'' no_results_service
                        two_search_request no_world))
   = [[(''query'', JStr ''first'')], [(''query'', JStr ''second'')]]"
    by (simp add: two_search_request_def no_world_def no_results_service_def
        intercept_websearch_in_request_def Let_def is_placeholder_def execute_websearch_def
        process_websearch_via_exa_def search_def search_try_def del: json_dumps.simps)
  then show ?thesis by (simp add: no_world_def)
qed

theorem search_calls_bounded_witness:
  "websearch_pairs (messages two_search_request) = 2
   \<and> length (search_calls (snd (intercept_websearch_in_request ''key'' no_results_service
                                  two_search_request no_world))) \<le> 2
   \<and> length (posts (snd (intercept_websearch_in_request ''key'' no_results_service
                            two_search_request no_world)))
       \<le> length (search_calls (snd (intercept_websearch_in_request ''key'' no_results_service
                                        two_search_request no_world)))
   \<and> websearch_pairs (messages placeholder_request) \<le> 1
   \<and> length (search_calls (snd (intercept_websearch_in_request ''key'' no_results_service
                                  placeholder_request no_world))) \<le> 1
   \<and> \<not> trigger (messages test_request)
   \<and> snd (intercept_websearch_in_request ''key'' no_results_service test_request no_world)
       = no_world"
proof -
  have a: "websearch_pairs (messages two_search_request) = 2"
    by (simp add: websearch_pairs_def two_search_request_def matching_pairs_def id_matches_def)
  have b: "websearch_pairs (messages placeholder_request) \<le> 1"
    by (simp add: websearch_pairs_def placeholder_request_def matching_pairs_def id_matches_def)
  have c: "\<not> trigger (messages test_request)"
    by (simp add: test_request_def trigger_def is_placeholder_def)
  have z: "search_calls no_world = []" "posts no_world = []"
    by (simp_all add: no_world_def)
  show ?thesis
    using a b c z
      search_calls_bounded [of no_world "''key''" no_results_service two_search_request]
      search_calls_bounded [of no_world "''key''" no_results_service placeholder_request]
      search_calls_bounded [of no_world "''key''" no_results_service test_request]
    by simp
qed

section \<open>Streaming response converter: one start and one stop for a block\<close>


















end
